theory Spec2Isabelle
  imports Complex_Main "HOL-Library.Log_Nat" "HOL-Library.Code_Target_Numeral"
begin

section \<open>The stopwatch of Exam-project/script.js\<close>

text \<open>
  The script keeps four module variables (\<open>intervalId\<close>, \<open>startTimestamp\<close>,
  \<open>elapsedMs\<close>, \<open>laps\<close>), reads two clocks (\<open>performance.now()\<close> and
  \<open>Date.now()\<close>), writes a handful of DOM properties and keeps one item in
  \<open>localStorage\<close>. Every function of the script is a function on one record holding all
  of that; clock readings are arguments, one for each call of a clock in the source.

  A JavaScript number is a binary64 double. Numbers are modelled as the reals that
  the format holds, and every arithmetic operation rounds its exact result to the
  nearest of them, ties to even (\<open>fl\<close>). The exponent is not bounded: there is no
  overflow to \<open>Infinity\<close> and there are no subnormal numbers; \<open>NaN\<close> and the sign
  of zero are not modelled.
\<close>

subsection \<open>JavaScript numbers\<close>

text \<open>
  \<open>binade x\<close> is the exponent \<open>e\<close> with \<open>2 ^ e \<le> x < 2 ^ (e + 1)\<close>, for a
  positive \<open>x\<close>; the doubles of that binade are the multiples of \<open>ulp x\<close>, with 53
  significant bits. \<open>rne\<close> rounds to the nearest integer, a tie to the even one.
\<close>

definition binade :: "real \<Rightarrow> int" where
  "binade x = (if 1 \<le> x then bitlen \<lfloor>x\<rfloor> - 1 else - bitlen (\<lceil>1 / x\<rceil> - 1))"

definition ulp :: "real \<Rightarrow> real" where
  "ulp x = 2 powi (binade x - 52)"

definition rne :: "real \<Rightarrow> int" where
  "rne y =
     (let f = \<lfloor>y\<rfloor>; d = y - of_int f
      in if d < 1 / 2 then f else if 1 / 2 < d then f + 1 else if even f then f else f + 1)"

definition fl :: "real \<Rightarrow> real" where
  "fl x = (if x = 0 then 0 else sgn x * (of_int (rne (\<bar>x\<bar> / ulp \<bar>x\<bar>)) * ulp \<bar>x\<bar>))"

text \<open>The operators \<open>+\<close>, \<open>-\<close> and \<open>/\<close> on numbers.\<close>

definition js_add :: "real \<Rightarrow> real \<Rightarrow> real" where
  "js_add a b = fl (a + b)"

definition js_sub :: "real \<Rightarrow> real \<Rightarrow> real" where
  "js_sub a b = fl (a - b)"

definition js_div :: "real \<Rightarrow> real \<Rightarrow> real" where
  "js_div a b = fl (a / b)"

subsection \<open>JavaScript values\<close>

text \<open>What \<open>JSON.parse\<close> can return.\<close>

datatype json =
    JNull
  | JBool bool
  | JNum real
  | JStr string
  | JArr "json list"
  | JObj "(string \<times> json) list"

text \<open>
  The item under \<open>STORAGE_KEY\<close> is a string. It is represented by what
  \<open>JSON.parse\<close> makes of it: \<open>Parsable v\<close> is a text that parses to the value
  \<open>v\<close> (the text \<open>JSON.stringify\<close> writes for \<open>v\<close> is one), \<open>Unparsable txt\<close> is the
  text \<open>txt\<close>, which \<open>JSON.parse\<close> rejects with a SyntaxError. The empty string is
  \<open>Unparsable []\<close>. The keys of a parsed object are distinct.
\<close>

datatype raw = Unparsable string | Parsable json

datatype exn = SyntaxError | TypeError | StorageError

text \<open>Truthiness (\<open>!raw\<close>, \<open>x || 0\<close>, \<open>if (intervalId)\<close>); \<open>None\<close> is \<open>undefined\<close>.\<close>

fun truthy_raw :: "raw option \<Rightarrow> bool" where
  "truthy_raw None = False"
| "truthy_raw (Some (Unparsable txt)) = (txt \<noteq> [])"
| "truthy_raw (Some (Parsable v)) = True"

fun truthy :: "json option \<Rightarrow> bool" where
  "truthy None = False"
| "truthy (Some JNull) = False"
| "truthy (Some (JBool b)) = b"
| "truthy (Some (JNum x)) = (x \<noteq> 0)"
| "truthy (Some (JStr s)) = (s \<noteq> [])"
| "truthy (Some (JArr xs)) = True"
| "truthy (Some (JObj kvs)) = True"

fun truthy_handle :: "nat option \<Rightarrow> bool" where
  "truthy_handle None = False"
| "truthy_handle (Some h) = (h \<noteq> 0)"

text \<open>
  Reading the property \<open>k\<close> (here \<open>elapsedMs\<close>, \<open>laps\<close> or \<open>label\<close>) of a parsed
  value: a TypeError on \<open>null\<close>, \<open>undefined\<close> on a boolean, a number, a string or an
  array, the field or \<open>undefined\<close> on an object.
\<close>

fun get_prop :: "json \<Rightarrow> string \<Rightarrow> exn + json option" where
  "get_prop JNull k = Inl TypeError"
| "get_prop (JObj kvs) k = Inr (map_of kvs k)"
| "get_prop v k = Inr None"

text \<open>\<open>JSON.parse(null)\<close> converts its argument to the text \<open>null\<close>.\<close>

fun JSON_parse :: "raw option \<Rightarrow> exn + json" where
  "JSON_parse None = Inr JNull"
| "JSON_parse (Some (Unparsable txt)) = Inl SyntaxError"
| "JSON_parse (Some (Parsable v)) = Inr v"

subsection \<open>formatTime\<close>

text \<open>The decimal digits of a natural number.\<close>

fun decimal :: "nat \<Rightarrow> string" where
  "decimal n = (if n < 10 then [''0123456789'' ! n]
                else decimal (n div 10) @ [''0123456789'' ! (n mod 10)])"

declare decimal.simps [simp del]

text \<open>
  \<open>String(x)\<close> for a number \<open>x\<close> with an integral value (Number::toString of
  ECMAScript). For a positive \<open>x\<close> it takes the least number \<open>k\<close> of digits for which
  some \<open>s\<close> of \<open>k\<close> digits and some \<open>p\<close> have \<open>s * 10 ^ (p - k)\<close> round to \<open>x\<close>,
  and of these the one closest to \<open>x\<close> (\<open>candidates\<close>, \<open>best\<close>, \<open>shortest\<close>); \<open>p\<close>
  is the number of digits of \<open>x\<close> or one more. It prints the digits of \<open>s\<close> followed
  by \<open>p - k\<close> zeros when \<open>p\<close> is at most 21, and the exponent form \<open>d.ddde+n\<close>
  otherwise.
\<close>

definition candidates :: "int \<Rightarrow> nat \<Rightarrow> nat \<Rightarrow> (nat \<times> int) list" where
  "candidates x k p =
     [(p, s). s \<leftarrow> [x div 10 ^ (p - k), x div 10 ^ (p - k) + 1],
        k \<le> p, 10 ^ (k - 1) \<le> s, s < 10 ^ k,
        fl (real_of_int (s * 10 ^ (p - k))) = real_of_int x]"

definition closer :: "int \<Rightarrow> nat \<Rightarrow> nat \<times> int \<Rightarrow> nat \<times> int \<Rightarrow> nat \<times> int" where
  "closer x k a b =
     (let da = \<bar>snd a * 10 ^ (fst a - k) - x\<bar>; db = \<bar>snd b * 10 ^ (fst b - k) - x\<bar>
      in if da < db then a else if db < da then b else if even (snd a) then a else b)"

fun best :: "int \<Rightarrow> nat \<Rightarrow> (nat \<times> int) list \<Rightarrow> (nat \<times> int) option" where
  "best x k [] = None"
| "best x k (c # cs) = Some (foldl (closer x k) c cs)"

fun shortest :: "int \<Rightarrow> nat \<Rightarrow> nat \<Rightarrow> nat \<Rightarrow> nat \<times> nat \<times> int" where
  "shortest x len 0 k = (len, len, x)"
| "shortest x len (Suc fuel) k =
     (case best x k (candidates x k len @ candidates x k (Suc len)) of
        Some (p, s) \<Rightarrow> (k, p, s)
      | None \<Rightarrow> shortest x len fuel (Suc k))"

definition digits :: "int \<Rightarrow> nat \<times> nat \<times> int" where
  "digits x = (let len = length (decimal (nat x)) in shortest x len len 1)"

definition String_pos :: "int \<Rightarrow> string" where
  "String_pos x =
     (case digits x of
        (k, p, s) \<Rightarrow>
          if p \<le> 21 then decimal (nat s) @ replicate (p - k) CHR ''0''
          else (case decimal (nat s) of
                  [] \<Rightarrow> []
                | c # cs \<Rightarrow> (if cs = [] then [c] else c # CHR ''.'' # cs) @ ''e+'' @ decimal (p - 1)))"

definition String_int :: "int \<Rightarrow> string" where
  "String_int n =
     (if n = 0 then ''0'' else if n < 0 then CHR ''-'' # String_pos (- n) else String_pos n)"

text \<open>\<open>s.padStart(n, c)\<close> for a one-character filler.\<close>

definition padStart :: "nat \<Rightarrow> char \<Rightarrow> string \<Rightarrow> string" where
  "padStart n c s = replicate (n - length s) c @ s"

text \<open>
  The operator \<open>%\<close>: the remainder of the truncating division, with the sign of the
  dividend.
\<close>

definition js_rem :: "int \<Rightarrow> int \<Rightarrow> int" where
  "js_rem a b = sgn a * (\<bar>a\<bar> mod \<bar>b\<bar>)"

definition two :: "int \<Rightarrow> string" where
  "two n = padStart 2 CHR ''0'' (String_int n)"

text \<open>
  \<open>formatTime\<close> is only called on \<open>Math.floor(...)\<close> of a number, so its argument is
  a number with an integral value, an \<open>int\<close>. The divisions are JavaScript's: a
  division of numbers, which rounds, then \<open>Math.floor\<close>. The remainder of two such
  numbers is exact.
\<close>

definition formatTime :: "int \<Rightarrow> string" where
  "formatTime totalSeconds =
     (let h = \<lfloor>js_div (real_of_int totalSeconds) 3600\<rfloor>;
          m = \<lfloor>js_div (real_of_int (js_rem totalSeconds 3600)) 60\<rfloor>;
          s = js_rem totalSeconds 60
      in two h @ '':'' @ two m @ '':'' @ two s)"

subsection \<open>State\<close>

text \<open>One \<open>li\<close> of the lap list: the lap number and the value of \<open>l.label\<close>.\<close>

type_synonym li = "nat \<times> json option"

record state =
  intervalId :: "nat option"
  startTimestamp :: real
  elapsedMs :: real
  laps :: "json list"
  timeEl :: string
  startBtn_disabled :: bool
  stopBtn_disabled :: bool
  resetBtn_disabled :: bool
  lapBtn_disabled :: bool
  lapsList :: "li list"
  timers :: "nat set"
  lastHandle :: nat
  storage :: "raw option"
  storageThrows :: bool
  console :: "string list"

text \<open>
  \<open>timers\<close> are the handles of the intervals that are registered and not cleared,
  \<open>lastHandle\<close> the last handle \<open>setInterval\<close> returned. \<open>storageThrows\<close> says
  that \<open>localStorage\<close> raises when it is read or written (private mode, quota).
\<close>

definition running :: "state \<Rightarrow> bool" where
  "running s = truthy_handle (intervalId s)"

text \<open>The handles of \<open>setInterval\<close> are positive integers.\<close>

definition setInterval :: "state \<Rightarrow> nat \<times> state" where
  "setInterval s =
     (let h = Suc (lastHandle s) in (h, s\<lparr>lastHandle := h, timers := insert h (timers s)\<rparr>))"

fun clearInterval :: "nat option \<Rightarrow> state \<Rightarrow> state" where
  "clearInterval None s = s"
| "clearInterval (Some h) s = s\<lparr>timers := timers s - {h}\<rparr>"

definition getItem :: "state \<Rightarrow> exn + raw option" where
  "getItem s = (if storageThrows s then Inl StorageError else Inr (storage s))"

definition setItem :: "raw \<Rightarrow> state \<Rightarrow> exn + state" where
  "setItem r s = (if storageThrows s then Inl StorageError else Inr (s\<lparr>storage := Some r\<rparr>))"

subsection \<open>Persistence\<close>

text \<open>
  \<open>elapsedMs\<close> is a number in this development. \<open>loadState\<close> can assign it any truthy
  value of the stored object; when that value is not a number the result is
  \<open>Untyped v s\<close>: the script holds \<open>v\<close> in \<open>elapsedMs\<close>, the other variables are as in
  \<open>s\<close>, and what the script computes from there on (string concatenation and the
  conversions of \<open>+\<close>) is not followed.
\<close>

datatype loaded = Loaded state | Untyped json state

text \<open>The body of the \<open>try\<close> of \<open>loadState\<close>.\<close>

definition loadState_try :: "state \<Rightarrow> exn + loaded" where
  "loadState_try s =
     (case getItem s of
        Inl e \<Rightarrow> Inl e
      | Inr raw \<Rightarrow>
          if \<not> truthy_raw raw then Inr (Loaded s)
          else (case JSON_parse raw of
                  Inl e \<Rightarrow> Inl e
                | Inr data \<Rightarrow>
                    (case get_prop data ''elapsedMs'' of
                       Inl e \<Rightarrow> Inl e
                     | Inr v \<Rightarrow>
                         (case get_prop data ''laps'' of
                            Inl e \<Rightarrow> Inl e
                          | Inr l \<Rightarrow>
                              (let ls = (case l of Some (JArr xs) \<Rightarrow> xs | _ \<Rightarrow> [])
                               in Inr (case (if truthy v then v else Some (JNum 0)) of
                                         Some (JNum x) \<Rightarrow> Loaded (s\<lparr>elapsedMs := x, laps := ls\<rparr>)
                                       | Some u \<Rightarrow> Untyped u (s\<lparr>laps := ls\<rparr>)
                                       | None \<Rightarrow> Loaded (s\<lparr>elapsedMs := 0, laps := ls\<rparr>)))))))"

definition loadState :: "state \<Rightarrow> loaded" where
  "loadState s =
     (case loadState_try s of
        Inl e \<Rightarrow> Loaded (s\<lparr>console := console s @ [''Failed to parse stored state'']\<rparr>)
      | Inr r \<Rightarrow> r)"

definition payload :: "real \<Rightarrow> state \<Rightarrow> json" where
  "payload savedAt s =
     JObj [(''elapsedMs'', JNum (elapsedMs s)), (''laps'', JArr (laps s)),
           (''savedAt'', JNum savedAt)]"

definition saveState :: "real \<Rightarrow> state \<Rightarrow> state" where
  "saveState date_now s =
     (case setItem (Parsable (payload date_now s)) s of
        Inl e \<Rightarrow> s
      | Inr s' \<Rightarrow> s')"

subsection \<open>Display\<close>

text \<open>
  The value \<open>currentElapsedMs\<close> that \<open>updateDisplay\<close> and the lap handler compute
  from the reading \<open>now\<close> of \<open>performance.now()\<close>.
\<close>

definition currentElapsedMs :: "state \<Rightarrow> real \<Rightarrow> real" where
  "currentElapsedMs s now =
     js_add (elapsedMs s)
       (if truthy_handle (intervalId s) then js_sub now (startTimestamp s) else 0)"

definition updateDisplay :: "real \<Rightarrow> state \<Rightarrow> state" where
  "updateDisplay now s =
     (let totalSeconds = \<lfloor>js_div (currentElapsedMs s now) 1000\<rfloor>
      in s\<lparr>timeEl := formatTime totalSeconds\<rparr>)"

definition tick :: "real \<Rightarrow> state \<Rightarrow> state" where
  "tick now s = updateDisplay now s"

text \<open>
  The template literal of \<open>renderLaps\<close> converts \<open>l.label\<close> to a string. On a parsed
  value the conversion raises a TypeError for an object with a field \<open>toString\<close> of
  its own (a parsed field is never a function, and \<open>valueOf\<close> gives the object back),
  and for an array with such an element, which \<open>join\<close> converts in turn; \<open>null\<close> and
  \<open>undefined\<close> convert.
\<close>

fun to_string_raises :: "json \<Rightarrow> bool" where
  "to_string_raises (JObj kvs) = (map_of kvs ''toString'' \<noteq> None)"
| "to_string_raises (JArr xs) = (\<exists>x \<in> set xs. to_string_raises x)"
| "to_string_raises v = False"

text \<open>
  \<open>renderLaps\<close> empties the list and appends one \<open>li\<close> for each lap; reading
  \<open>l.label\<close> of a lap that is \<open>null\<close> raises, so does a label that does not convert
  to a string, and the items appended before stay. The result says whether it raised.
\<close>

fun render_items :: "nat \<Rightarrow> json list \<Rightarrow> li list \<Rightarrow> exn option \<times> li list" where
  "render_items n [] acc = (None, acc)"
| "render_items n (l # ls) acc =
     (case get_prop l ''label'' of
        Inl e \<Rightarrow> (Some e, acc)
      | Inr None \<Rightarrow> render_items (n - 1) ls (acc @ [(n, None)])
      | Inr (Some v) \<Rightarrow>
          if to_string_raises v then (Some TypeError, acc)
          else render_items (n - 1) ls (acc @ [(n, Some v)]))"

text \<open>A lap renders: reading its label and converting it to a string do not raise.\<close>

definition renders :: "json \<Rightarrow> bool" where
  "renders l =
     (case get_prop l ''label'' of
        Inl e \<Rightarrow> False
      | Inr None \<Rightarrow> True
      | Inr (Some v) \<Rightarrow> \<not> to_string_raises v)"

definition renderLaps :: "state \<Rightarrow> exn option \<times> state" where
  "renderLaps s =
     (let s1 = s\<lparr>lapsList := []\<rparr>
      in if length (laps s1) = 0 then (None, s1)
         else (case render_items (length (laps s1)) (laps s1) (lapsList s1) of
                 (e, items) \<Rightarrow> (e, s1\<lparr>lapsList := items\<rparr>)))"

subsection \<open>The click handlers\<close>

text \<open>
  Each handler takes the readings of the clocks in the order the source takes them:
  \<open>now\<close> is \<open>performance.now()\<close> in the handler, \<open>now'\<close> the one in
  \<open>updateDisplay\<close>, \<open>date_now\<close> is \<open>Date.now()\<close> in \<open>saveState\<close>. An exception that
  leaves a handler ends it; the state stays as it is at that point.
\<close>

definition startBtn_click :: "real \<Rightarrow> real \<Rightarrow> state \<Rightarrow> state" where
  "startBtn_click now now' s =
     (if truthy_handle (intervalId s) then s
      else
        (let s1 = s\<lparr>startTimestamp := now\<rparr>;
             (h, s2) = setInterval s1;
             s3 = s2\<lparr>intervalId := Some h\<rparr>;
             s4 = updateDisplay now' s3
         in s4\<lparr>startBtn_disabled := True, stopBtn_disabled := False,
               resetBtn_disabled := False, lapBtn_disabled := False\<rparr>))"

definition stopBtn_click :: "real \<Rightarrow> real \<Rightarrow> real \<Rightarrow> state \<Rightarrow> state" where
  "stopBtn_click now now' date_now s =
     (if \<not> truthy_handle (intervalId s) then s
      else
        (let s1 = s\<lparr>elapsedMs := js_add (elapsedMs s) (js_sub now (startTimestamp s))\<rparr>;
             s2 = clearInterval (intervalId s1) s1;
             s3 = s2\<lparr>intervalId := None\<rparr>;
             s4 = updateDisplay now' s3;
             s5 = s4\<lparr>startBtn_disabled := False, stopBtn_disabled := True,
                     resetBtn_disabled := False, lapBtn_disabled := True\<rparr>
         in saveState date_now s5))"

definition resetBtn_click :: "real \<Rightarrow> real \<Rightarrow> state \<Rightarrow> state" where
  "resetBtn_click now' date_now s =
     (let s1 = (if truthy_handle (intervalId s)
                then (clearInterval (intervalId s) s)\<lparr>intervalId := None\<rparr> else s);
          s2 = s1\<lparr>elapsedMs := 0, startTimestamp := 0, laps := []\<rparr>
      in case renderLaps s2 of
           (Some e, s3) \<Rightarrow> s3
         | (None, s3) \<Rightarrow>
             (let s4 = updateDisplay now' s3;
                  s5 = s4\<lparr>startBtn_disabled := False, stopBtn_disabled := True,
                          resetBtn_disabled := True, lapBtn_disabled := True\<rparr>
              in saveState date_now s5))"

definition new_lap :: "state \<Rightarrow> real \<Rightarrow> json" where
  "new_lap s now =
     (let current = currentElapsedMs s now;
          seconds = \<lfloor>js_div current 1000\<rfloor>;
          formatted = formatTime seconds
      in JObj [(''timeMs'', JNum current), (''label'', JStr formatted)])"

definition lapBtn_click :: "real \<Rightarrow> real \<Rightarrow> state \<Rightarrow> state" where
  "lapBtn_click now date_now s =
     (let s1 = s\<lparr>laps := new_lap s now # laps s\<rparr>
      in case renderLaps s1 of
           (Some e, s2) \<Rightarrow> s2
         | (None, s2) \<Rightarrow> saveState date_now s2)"

text \<open>\<open>visible\<close> says that \<open>document.visibilityState\<close> is \<open>'visible'\<close>.\<close>

definition visibilitychange :: "bool \<Rightarrow> real \<Rightarrow> state \<Rightarrow> state" where
  "visibilitychange visible now s = (if visible then updateDisplay now s else s)"

subsection \<open>Loading the page\<close>

text \<open>
  The module variables as their declarations initialise them; the page, its timers and
  the storage are as \<open>env\<close> has them.
\<close>

definition fresh :: "state \<Rightarrow> state" where
  "fresh env = env\<lparr>intervalId := None, startTimestamp := 0, elapsedMs := 0, laps := []\<rparr>"


subsection \<open>Events\<close>

text \<open>
  A click reaches the handler of a button only when the button is not disabled; the
  callback of an interval runs only while the interval is registered.
\<close>

datatype event =
    StartClick real real
  | StopClick real real real
  | ResetClick real real
  | LapClick real real
  | Tick real
  | VisibilityChange bool real

fun dispatch :: "event \<Rightarrow> state \<Rightarrow> state" where
  "dispatch (StartClick now now') s =
     (if startBtn_disabled s then s else startBtn_click now now' s)"
| "dispatch (StopClick now now' date_now) s =
     (if stopBtn_disabled s then s else stopBtn_click now now' date_now s)"
| "dispatch (ResetClick now' date_now) s =
     (if resetBtn_disabled s then s else resetBtn_click now' date_now s)"
| "dispatch (LapClick now date_now) s =
     (if lapBtn_disabled s then s else lapBtn_click now date_now s)"
| "dispatch (Tick now) s = (if timers s = {} then s else tick now s)"
| "dispatch (VisibilityChange visible now) s = visibilitychange visible now s"


subsection \<open>Calls of the operations\<close>

text \<open>
  The operations \<open>start\<close>, \<open>stop\<close> and \<open>query\<close> as a caller sees them: the two
  handlers, and the value \<open>currentElapsedMs\<close> at an instant. \<open>readings\<close> are the
  readings of \<open>performance.now()\<close> a call is given, \<open>instant\<close> the last of them.
\<close>

datatype call = Start real real | Stop real real real | Query real

fun apply_call :: "call \<Rightarrow> state \<Rightarrow> state" where
  "apply_call (Start now now') s = startBtn_click now now' s"
| "apply_call (Stop now now' date_now) s = stopBtn_click now now' date_now s"
| "apply_call (Query now) s = s"

fun readings :: "call \<Rightarrow> real list" where
  "readings (Start now now') = [now, now']"
| "readings (Stop now now' date_now) = [now, now']"
| "readings (Query now) = [now]"

fun instant :: "call \<Rightarrow> real" where
  "instant (Start now now') = now'"
| "instant (Stop now now' date_now) = now'"
| "instant (Query now) = now"

text \<open>The value of \<open>currentElapsedMs\<close> after each call of a sequence.\<close>

fun observe :: "state \<Rightarrow> call list \<Rightarrow> real list" where
  "observe s [] = []"
| "observe s (c # cs) =
     (let s' = apply_call c s in currentElapsedMs s' (instant c) # observe s' cs)"

subsection \<open>Reading the specification\<close>

text \<open>The number a string of decimal digits denotes.\<close>

definition digit_val :: "char \<Rightarrow> nat" where
  "digit_val c = length (takeWhile (\<lambda>d. d \<noteq> c) ''0123456789'')"

definition num_of :: "string \<Rightarrow> nat" where
  "num_of cs = foldl (\<lambda>a c. 10 * a + digit_val c) 0 cs"

definition is_digit :: "char \<Rightarrow> bool" where
  "is_digit c = (c \<in> set ''0123456789'')"

text \<open>
  The persisted layout as the specification gives it: an object with the keys
  \<open>accumulatedMs\<close>, \<open>laps\<close> and \<open>savedAt\<close>, the laps a list of objects with the
  fields \<open>elapsedMs\<close> and \<open>label\<close>.
\<close>

fun has_field :: "json \<Rightarrow> string \<Rightarrow> bool" where
  "has_field (JObj kvs) k = (map_of kvs k \<noteq> None)"
| "has_field v k = False"

definition spec_lap :: "json \<Rightarrow> bool" where
  "spec_lap l = (has_field l ''elapsedMs'' \<and> has_field l ''label'')"

fun spec_snapshot :: "json \<Rightarrow> bool" where
  "spec_snapshot (JObj kvs) =
     (map_of kvs ''accumulatedMs'' \<noteq> None \<and> map_of kvs ''savedAt'' \<noteq> None \<and>
      (case map_of kvs ''laps'' of Some (JArr ls) \<Rightarrow> list_all spec_lap ls | _ \<Rightarrow> False))"
| "spec_snapshot v = False"

text \<open>The layout the script writes.\<close>

fun lap_entry :: "json \<Rightarrow> bool" where
  "lap_entry (JObj [(k1, JNum x), (k2, JStr l)]) = (k1 = ''timeMs'' \<and> k2 = ''label'')"
| "lap_entry v = False"

fun snapshot_layout :: "json \<Rightarrow> bool" where
  "snapshot_layout (JObj [(k1, JNum e), (k2, JArr ls), (k3, JNum t)]) =
     (k1 = ''elapsedMs'' \<and> k2 = ''laps'' \<and> k3 = ''savedAt'' \<and> list_all lap_entry ls)"
| "snapshot_layout v = False"

text \<open>
  The default state of the specification, \<open>{accumulatedMs: 0, laps: []}\<close>, and a
  stored object whose \<open>laps\<close> is not an array.
\<close>

fun the_state :: "loaded \<Rightarrow> state" where
  "the_state (Loaded s) = s"
| "the_state (Untyped v s) = s"

fun default_loaded :: "loaded \<Rightarrow> bool" where
  "default_loaded (Loaded s) = (elapsedMs s = 0 \<and> laps s = [])"
| "default_loaded (Untyped v s) = False"

fun is_array :: "json option \<Rightarrow> bool" where
  "is_array (Some (JArr xs)) = True"
| "is_array v = False"

fun is_number :: "json option \<Rightarrow> bool" where
  "is_number (Some (JNum x)) = True"
| "is_number v = False"

definition non_array_laps :: "json \<Rightarrow> bool" where
  "non_array_laps data = (case get_prop data ''laps'' of Inr v \<Rightarrow> \<not> is_array v | Inl e \<Rightarrow> False)"

subsection \<open>A page to run the script on\<close>

text \<open>An empty page: nothing stored, no interval registered, every button enabled.\<close>

definition blank_page :: state where
  "blank_page =
     \<lparr>intervalId = None, startTimestamp = 0, elapsedMs = 0, laps = [], timeEl = [],
      startBtn_disabled = False, stopBtn_disabled = False, resetBtn_disabled = False,
      lapBtn_disabled = False, lapsList = [], timers = {}, lastHandle = 0,
      storage = None, storageThrows = False, console = []\<rparr>"

text \<open>
  The scenario of the specification: start at 0 ms, query at 1500, stop at 2000, start
  again at 5000, query at 5500. \<open>started\<close> is the empty page after a click on Start
  at 0 ms.
\<close>

definition scenario :: "call list" where
  "scenario = [Start 0 0, Query 1500, Stop 2000 2000 99, Start 5000 5000, Query 5500]"

definition started :: state where
  "started = startBtn_click 0 0 (fresh blank_page)"

text \<open>
  A page whose stored object has a number in \<open>elapsedMs\<close> and a string in \<open>laps\<close>.
\<close>

definition tampered :: state where
  "tampered =
     blank_page\<lparr>storage :=
       Some (Parsable (JObj [(''elapsedMs'', JNum 5000), (''laps'', JStr ''oops'')]))\<rparr>"

text \<open>
  \<open>ready\<close> is the empty page after \<open>init\<close>, \<open>lapped\<close> the page after a click on
  Start at 0 ms and a click on Lap at 1500 ms.
\<close>

definition ready :: state where
  "ready =
     blank_page\<lparr>timeEl := ''00:00:00'', stopBtn_disabled := True, resetBtn_disabled := True,
       lapBtn_disabled := True\<rparr>"

definition lapped :: state where
  "lapped = lapBtn_click 1500 7 started"



text \<open>
  The time format as the specification words it: hours, minutes and seconds of \<open>t\<close>
  by integer division, each in decimal digits with a zero in front below ten.
\<close>

definition spec_two :: "int \<Rightarrow> string" where
  "spec_two n = (if n < 10 then CHR ''0'' # decimal (nat n) else decimal (nat n))"

definition spec_formatTime :: "int \<Rightarrow> string" where
  "spec_formatTime t =
     spec_two (t div 3600) @ '':'' @ spec_two (t mod 3600 div 60) @ '':'' @ spec_two (t mod 60)"

section \<open>Properties\<close>

subsection \<open>Rounding\<close>

lemma binade_bounds_ge1:
  assumes "1 \<le> x"
  shows "2 powi binade x \<le> x \<and> x < 2 powi (binade x + 1)"
proof -
  let ?m = "\<lfloor>x\<rfloor>"
  from assms have m: "0 < ?m" by simp
  from bitlen_bounds [OF m] have b: "2 ^ nat (bitlen ?m - 1) \<le> ?m" "?m < 2 ^ nat (bitlen ?m)"
    by simp_all
  from m have bl: "1 \<le> bitlen ?m" by (simp add: bitlen_alt_def)
  have e: "binade x = bitlen ?m - 1" using assms by (simp add: binade_def)
  have p1: "2 powi binade x = real_of_int (2 ^ nat (bitlen ?m - 1))"
    using bl by (simp add: e power_int_nonneg_exp)
  have p2: "2 powi (binade x + 1) = real_of_int (2 ^ nat (bitlen ?m))"
    using bl by (simp add: e power_int_nonneg_exp)
  have "real_of_int (2 ^ nat (bitlen ?m - 1)) \<le> real_of_int ?m"
    using b(1) by (simp only: of_int_le_iff)
  also have "\<dots> \<le> x" by simp
  finally have lo: "2 powi binade x \<le> x" by (simp only: p1)
  have "?m + 1 \<le> 2 ^ nat (bitlen ?m)" using b(2) by simp
  then have "real_of_int (?m + 1) \<le> real_of_int (2 ^ nat (bitlen ?m))"
    by (simp only: of_int_le_iff)
  moreover have "x < real_of_int (?m + 1)" by linarith
  ultimately have "x < real_of_int (2 ^ nat (bitlen ?m))" by linarith
  then have "x < 2 powi (binade x + 1)" by (simp only: p2)
  with lo show ?thesis by simp
qed

lemma binade_bounds_lt1:
  assumes "0 < x" and "x < 1"
  shows "2 powi binade x \<le> x \<and> x < 2 powi (binade x + 1)"
proof -
  let ?y = "1 / x"
  let ?n = "\<lceil>?y\<rceil> - 1"
  let ?b = "bitlen ?n"
  from assms have y: "1 < ?y" by simp
  then have n: "0 < ?n" by linarith
  from bitlen_bounds [OF n] have b: "2 ^ nat (?b - 1) \<le> ?n" "?n < 2 ^ nat ?b"
    by simp_all
  from n have bl: "1 \<le> ?b" by (simp add: bitlen_alt_def)
  have e: "binade x = - ?b" using assms by (simp add: binade_def)
  have ny: "real_of_int ?n < ?y" "?y \<le> real_of_int ?n + 1" by linarith+
  have "real_of_int (2 ^ nat (?b - 1)) \<le> real_of_int ?n"
    using b(1) by (simp only: of_int_le_iff)
  with ny have lo: "real_of_int (2 ^ nat (?b - 1)) < ?y" by linarith
  have "?n + 1 \<le> 2 ^ nat ?b" using b(2) by simp
  then have "real_of_int (?n + 1) \<le> real_of_int (2 ^ nat ?b)"
    by (simp only: of_int_le_iff)
  with ny have hi: "?y \<le> real_of_int (2 ^ nat ?b)" by linarith
  have p1: "2 powi binade x = 1 / real_of_int (2 ^ nat ?b)"
    using bl by (simp add: e power_int_minus_divide power_int_nonneg_exp)
  have "binade x + 1 = - (?b - 1)" by (simp add: e)
  then have p2: "2 powi (binade x + 1) = 1 / real_of_int (2 ^ nat (?b - 1))"
    using bl by (simp only: power_int_minus_divide) (simp add: power_int_nonneg_exp)
  have pos: "0 < real_of_int (2 ^ nat ?b)" "0 < real_of_int (2 ^ nat (?b - 1))" by simp_all
  from hi assms pos have "1 / real_of_int (2 ^ nat ?b) \<le> x"
    by (simp add: field_simps)
  moreover from lo assms pos have "x < 1 / real_of_int (2 ^ nat (?b - 1))"
    by (simp add: field_simps)
  ultimately show ?thesis by (simp only: p1 p2)
qed

lemma binade_bounds:
  "0 < x \<Longrightarrow> 2 powi binade x \<le> x \<and> x < 2 powi (binade x + 1)"
  using binade_bounds_ge1 [of x] binade_bounds_lt1 [of x] by (cases "1 \<le> x") simp_all

lemma two_powi_less_iff: "((2::real) powi a < 2 powi b) = (a < b)"
  using power_int_strict_increasing [of a b "2::real"] power_int_increasing [of b a "2::real"]
  by (cases "a < b") (simp_all add: not_less)

lemma binade_eqI:
  assumes "0 < x" and "2 powi e \<le> x" and "x < 2 powi (e + 1)"
  shows "binade x = e"
proof -
  from binade_bounds [OF assms(1)]
  have b: "2 powi binade x \<le> x" "x < 2 powi (binade x + 1)" by simp_all
  from assms(2) b(2) have "(2::real) powi e < 2 powi (binade x + 1)" by simp
  then have "e < binade x + 1" by (simp only: two_powi_less_iff)
  moreover from b(1) assms(3) have "(2::real) powi binade x < 2 powi (e + 1)" by simp
  then have "binade x < e + 1" by (simp only: two_powi_less_iff)
  ultimately show ?thesis by simp
qed

lemma binade_mono: "0 < x \<Longrightarrow> x \<le> y \<Longrightarrow> binade x \<le> binade y"
proof -
  assume x: "0 < x" and xy: "x \<le> y"
  then have y: "0 < y" by simp
  from binade_bounds [OF x] binade_bounds [OF y] xy
  have "(2::real) powi binade x < 2 powi (binade y + 1)" by linarith
  then have "binade x < binade y + 1" by (simp only: two_powi_less_iff)
  then show ?thesis by simp
qed


lemma rne_of_int [simp]: "rne (of_int n) = n"
  by (simp add: rne_def)

lemma rne_floor: "\<lfloor>y\<rfloor> \<le> rne y \<and> rne y \<le> \<lfloor>y\<rfloor> + 1"
  by (simp add: rne_def Let_def)

lemma rne_near: "real_of_int (rne y) \<le> y + 1 / 2 \<and> y - 1 / 2 \<le> real_of_int (rne y)"
  unfolding rne_def Let_def by (auto; linarith)

lemma rne_mono:
  assumes "y \<le> z"
  shows "rne y \<le> rne z"
proof (cases "\<lfloor>y\<rfloor> = \<lfloor>z\<rfloor>")
  case True
  with assms show ?thesis
    unfolding rne_def Let_def by (auto; linarith)
next
  case False
  with assms have "\<lfloor>y\<rfloor> + 1 \<le> \<lfloor>z\<rfloor>"
    using floor_mono [of y z] by linarith
  with rne_floor [of y] rne_floor [of z] show ?thesis by linarith
qed

lemma rne_ge: "real_of_int n \<le> y \<Longrightarrow> n \<le> rne y"
  using rne_mono [of "real_of_int n" y] by simp

lemma rne_le: "y \<le> real_of_int n \<Longrightarrow> rne y \<le> n"
  using rne_mono [of y "real_of_int n"] by simp

lemma rne_less: "y + 1 / 2 < real_of_int n \<Longrightarrow> rne y < n"
  using rne_near [of y] by linarith

lemma ulp_pos [simp]: "0 < ulp x"
  by (simp add: ulp_def)

lemma ulp_nonneg [simp]: "0 \<le> ulp x"
  by (simp add: ulp_def)

lemma ulp_neq_0 [simp]: "ulp x \<noteq> 0"
  by (simp add: ulp_def)

lemma fl_0 [simp]: "fl 0 = 0"
  by (simp add: fl_def)

lemma fl_pos: "0 < x \<Longrightarrow> fl x = real_of_int (rne (x / ulp x)) * ulp x"
  by (simp add: fl_def)

lemma fl_minus: "fl (- x) = - fl x"
  by (simp add: fl_def sgn_minus)

lemma fl_neg: "x < 0 \<Longrightarrow> fl x = - fl (- x)"
  by (simp add: fl_minus)

lemma two_powi_52: "2 powi binade x = 2 ^ 52 * ulp x"
proof -
  have "binade x = 52 + (binade x - 52)" by simp
  then have "(2::real) powi binade x = 2 powi (52 + (binade x - 52))" by (rule arg_cong)
  also have "\<dots> = 2 powi 52 * 2 powi (binade x - 52)"
    by (rule power_int_add) simp
  finally show ?thesis by (simp add: ulp_def)
qed

lemma two_powi_53: "2 powi (binade x + 1) = 2 ^ 53 * ulp x"
proof -
  have "binade x + 1 = 53 + (binade x - 52)" by simp
  then have "(2::real) powi (binade x + 1) = 2 powi (53 + (binade x - 52))" by (rule arg_cong)
  also have "\<dots> = 2 powi 53 * 2 powi (binade x - 52)"
    by (rule power_int_add) simp
  finally show ?thesis by (simp add: ulp_def)
qed

text \<open>A value between two points of the grid of its binade rounds between them.\<close>

lemma fl_grid_ge:
  assumes "0 < x" and "real_of_int i * ulp x \<le> x"
  shows "real_of_int i * ulp x \<le> fl x"
proof -
  from assms(2) have "real_of_int i \<le> x / ulp x" by (simp add: pos_le_divide_eq)
  then have "i \<le> rne (x / ulp x)" by (rule rne_ge)
  then have "real_of_int i \<le> real_of_int (rne (x / ulp x))" by simp
  then show ?thesis using assms(1) by (simp add: fl_pos)
qed

lemma fl_grid_le:
  assumes "0 < x" and "x \<le> real_of_int i * ulp x"
  shows "fl x \<le> real_of_int i * ulp x"
proof -
  from assms(2) have "x / ulp x \<le> real_of_int i" by (simp add: pos_divide_le_eq)
  then have "rne (x / ulp x) \<le> i" by (rule rne_le)
  then have "real_of_int (rne (x / ulp x)) \<le> real_of_int i" by simp
  then show ?thesis using assms(1) by (simp add: fl_pos)
qed

lemma fl_binade:
  assumes "0 < x"
  shows "2 powi binade x \<le> fl x" and "fl x \<le> 2 powi (binade x + 1)"
proof -
  from binade_bounds [OF assms]
  have b: "real_of_int (2 ^ 52) * ulp x \<le> x" "x \<le> real_of_int (2 ^ 53) * ulp x"
    by (simp_all add: two_powi_52 two_powi_53)
  from fl_grid_ge [OF assms b(1)] show "2 powi binade x \<le> fl x"
    by (simp add: two_powi_52)
  from fl_grid_le [OF assms b(2)] show "fl x \<le> 2 powi (binade x + 1)"
    by (simp add: two_powi_53)
qed

lemma fl_pos_pos: "0 < x \<Longrightarrow> 0 < fl x"
  using fl_binade(1) [of x] zero_less_power_int [of "2::real" "binade x"] by linarith

lemma fl_nonneg: "0 \<le> x \<Longrightarrow> 0 \<le> fl x"
  using fl_pos_pos [of x] by (cases "x = 0") simp_all

lemma fl_exact: "0 < x \<Longrightarrow> x / ulp x = real_of_int n \<Longrightarrow> fl x = x"
  by (simp add: fl_pos) (metis nonzero_divide_eq_eq ulp_pos less_irrefl)


lemma ulp_same: "0 < x \<Longrightarrow> 0 < y \<Longrightarrow> binade x = binade y \<Longrightarrow> ulp x = ulp y"
  by (simp add: ulp_def)

lemma fl_idem_pos:
  assumes "0 < x"
  shows "fl (fl x) = fl x"
proof -
  let ?y = "fl x"
  from assms have y: "0 < ?y" by (rule fl_pos_pos)
  have n: "?y = real_of_int (rne (x / ulp x)) * ulp x" using assms by (rule fl_pos)
  show ?thesis
  proof (cases "?y < 2 powi (binade x + 1)")
    case True
    with fl_binade(1) [OF assms] y have "binade ?y = binade x" by (intro binade_eqI)
    then have u: "ulp ?y = ulp x" by (simp add: ulp_def)
    have "real_of_int (rne (x / ulp x)) * ulp x / ulp x = real_of_int (rne (x / ulp x))"
      using ulp_pos [of x] by simp
    then have "?y / ulp ?y = real_of_int (rne (x / ulp x))"
      by (simp only: n [symmetric] u)
    with y show ?thesis by (rule fl_exact)
  next
    case False
    with fl_binade(2) [OF assms] have eq: "?y = 2 powi (binade x + 1)" by simp
    have "(2::real) powi (binade x + 1) < 2 powi (binade x + 1 + 1)"
      by (simp add: two_powi_less_iff)
    with eq y have b: "binade ?y = binade x + 1" by (intro binade_eqI) simp_all
    have "ulp ?y = 2 powi (1 + (binade x - 52))"
      unfolding ulp_def b by (rule arg_cong) simp
    also have "\<dots> = 2 powi 1 * 2 powi (binade x - 52)" by (rule power_int_add) simp
    finally have u: "ulp ?y = 2 * ulp x" by (simp add: ulp_def)
    from eq have "?y = 2 ^ 53 * ulp x" by (simp only: two_powi_53)
    with u have "?y / ulp ?y = real_of_int (2 ^ 52)" by simp
    with y show ?thesis by (rule fl_exact)
  qed
qed

lemma fl_idem [simp]: "fl (fl x) = fl x"
proof (cases "0 < x")
  case True
  then show ?thesis by (rule fl_idem_pos)
next
  case False
  show ?thesis
  proof (cases "x = 0")
    case True
    then show ?thesis by simp
  next
    case False
    with \<open>\<not> 0 < x\<close> have "0 < - x" by simp
    then have "fl (fl (- x)) = fl (- x)" by (rule fl_idem_pos)
    then show ?thesis by (simp add: fl_minus)
  qed
qed

lemma fl_mono_pos:
  assumes "0 < x" and "x \<le> y"
  shows "fl x \<le> fl y"
proof -
  from assms have y: "0 < y" by simp
  from assms have le: "binade x \<le> binade y" by (rule binade_mono)
  show ?thesis
  proof (cases "binade x = binade y")
    case True
    then have u: "ulp y = ulp x" by (simp add: ulp_def)
    from assms(2) have "x / ulp x \<le> y / ulp x" by (rule divide_right_mono) simp
    then have "rne (x / ulp x) \<le> rne (y / ulp x)" by (rule rne_mono)
    then have "real_of_int (rne (x / ulp x)) * ulp x \<le> real_of_int (rne (y / ulp x)) * ulp x"
      by simp
    with assms(1) y u show ?thesis by (simp add: fl_pos)
  next
    case False
    with le have "binade x + 1 \<le> binade y" by simp
    then have "(2::real) powi (binade x + 1) \<le> 2 powi binade y"
      by (intro power_int_increasing) simp_all
    with fl_binade(2) [OF assms(1)] fl_binade(1) [OF y] show ?thesis by linarith
  qed
qed

lemma fl_mono: "x \<le> y \<Longrightarrow> fl x \<le> fl y"
proof -
  assume xy: "x \<le> y"
  consider "0 < x" | "x \<le> 0" "0 \<le> y" | "y < 0" by linarith
  then show ?thesis
  proof cases
    case 1
    then show ?thesis using xy by (rule fl_mono_pos)
  next
    case 2
    then have "0 \<le> fl (- x)" "0 \<le> fl y" by (simp_all add: fl_nonneg)
    then show ?thesis by (simp add: fl_minus)
  next
    case 3
    with xy have "0 < - y" "- y \<le> - x" by simp_all
    then have "fl (- y) \<le> fl (- x)" by (rule fl_mono_pos)
    then show ?thesis by (simp add: fl_minus)
  qed
qed


lemma two_powi_le_iff: "((2::real) powi a \<le> 2 powi b) = (a \<le> b)"
  using two_powi_less_iff [of b a] by (simp add: not_less [symmetric])

lemma ulp_small:
  assumes "binade x \<le> 52"
  shows "ulp x = 1 / 2 ^ nat (52 - binade x)"
proof -
  have "binade x - 52 = - (52 - binade x)" by simp
  then have "ulp x = 2 powi (- (52 - binade x))" by (simp only: ulp_def)
  also have "\<dots> = 1 / 2 powi (52 - binade x)" by (rule power_int_minus_divide)
  also have "\<dots> = 1 / 2 ^ nat (52 - binade x)"
    using assms by (simp add: power_int_nonneg_exp)
  finally show ?thesis .
qed

lemma binade_below:
  assumes "0 < x" and "x < 2 ^ 53"
  shows "binade x \<le> 52"
proof -
  from binade_bounds [OF assms(1)] assms(2) have "(2::real) powi binade x < 2 powi 53"
    by simp
  then have "binade x < 53" by (simp only: two_powi_less_iff)
  then show ?thesis by simp
qed

lemma fl_of_int_small:
  assumes "0 < n" and "n < 2 ^ 53"
  shows "fl (real_of_int n) = real_of_int n"
proof -
  let ?x = "real_of_int n"
  from assms have x: "0 < ?x" "?x < 2 ^ 53" by simp_all
  then have "binade ?x \<le> 52" by (rule binade_below)
  then have "ulp ?x = 1 / 2 ^ nat (52 - binade ?x)" by (rule ulp_small)
  then have "?x / ulp ?x = real_of_int (n * 2 ^ nat (52 - binade ?x))" by simp
  with x(1) show ?thesis by (rule fl_exact)
qed

lemma fl_2_53: "fl (2 ^ 53) = 2 ^ 53"
proof -
  have b: "binade (2 ^ 53) = 53" by (rule binade_eqI) simp_all
  have "ulp (2 ^ 53) = 2" unfolding ulp_def b by simp
  then have "2 ^ 53 / ulp (2 ^ 53) = real_of_int (2 ^ 52)" by simp
  then show ?thesis by (intro fl_exact) simp_all
qed

lemma fl_of_int:
  assumes "\<bar>n\<bar> \<le> 2 ^ 53"
  shows "fl (real_of_int n) = real_of_int n"
proof -
  have pos: "fl (real_of_int m) = real_of_int m" if "0 \<le> m" "m \<le> 2 ^ 53" for m
  proof -
    show ?thesis
    proof (cases "m = 0")
      case True
      then show ?thesis by simp
    next
      case False
      show ?thesis
      proof (cases "m = 2 ^ 53")
        case True
        then show ?thesis using fl_2_53 by simp
      next
        case False
        with \<open>m \<noteq> 0\<close> that have "0 < m" "m < 2 ^ 53" by simp_all
        then show ?thesis by (rule fl_of_int_small)
      qed
    qed
  qed
  show ?thesis
  proof (cases "0 \<le> n")
    case True
    with assms show ?thesis by (intro pos) simp_all
  next
    case False
    with assms have "fl (real_of_int (- n)) = real_of_int (- n)" by (intro pos) simp_all
    then show ?thesis by (simp add: fl_minus)
  qed
qed

lemma fl_large: "2 ^ 53 \<le> y \<Longrightarrow> 2 ^ 53 \<le> fl y"
  using fl_mono [of "2 ^ 53" y] fl_2_53 by simp

text \<open>Below \<open>2 ^ 53\<close> the only integer that rounds to an integer is that integer.\<close>

lemma fl_of_int_inj:
  assumes "0 \<le> m" and "0 \<le> x" and "x < 2 ^ 53" and "fl (real_of_int m) = real_of_int x"
  shows "m = x"
proof (cases "m \<le> 2 ^ 53")
  case True
  with assms(1) have "fl (real_of_int m) = real_of_int m" by (intro fl_of_int) simp
  with assms(4) show ?thesis by simp
next
  case False
  then have "(2::real) ^ 53 \<le> real_of_int m"
    by (metis not_le of_int_le_iff of_int_numeral of_int_power less_imp_le)
  then have "2 ^ 53 \<le> fl (real_of_int m)" by (rule fl_large)
  with assms(4) have "(2::real) ^ 53 \<le> real_of_int x" by simp
  moreover from assms(3) have "real_of_int x < 2 ^ 53"
    by (metis of_int_less_iff of_int_numeral of_int_power)
  ultimately show ?thesis by simp
qed

text \<open>\<open>Math.floor(a / d)\<close> on integers below \<open>2 ^ 53\<close> is the integer quotient.\<close>

lemma floor_fl_div:
  assumes "0 \<le> a" and "a < 2 ^ 53" and "0 < d"
  shows "\<lfloor>fl (real_of_int a / real_of_int d)\<rfloor> = a div d"
proof (cases "a = 0")
  case True
  then show ?thesis by simp
next
  case False
  let ?x = "real_of_int a / real_of_int d"
  let ?k = "a div d"
  let ?j = "nat (52 - binade ?x)"
  from False assms have a: "0 < a" by simp
  with assms(3) have x: "0 < ?x" by simp
  from assms(3) have "1 \<le> real_of_int d" by simp
  with a have "?x \<le> real_of_int a" by (simp add: field_simps mult_le_cancel_left1)
  moreover from assms(2) have "real_of_int a < 2 ^ 53"
    by (metis of_int_less_iff of_int_numeral of_int_power)
  ultimately have "?x < 2 ^ 53" by simp
  with x have e: "binade ?x \<le> 52" by (rule binade_below)
  then have u: "ulp ?x = 1 / 2 ^ ?j" by (rule ulp_small)
  have grid: "real_of_int (i * 2 ^ ?j) * ulp ?x = real_of_int i" for i
    by (simp add: u)
  have "real_of_int ?k * real_of_int d \<le> real_of_int a"
    using assms(3) by (metis mult.commute of_int_le_iff of_int_mult pos_mod_sign
        mult_div_mod_eq add_increasing2 order_refl less_imp_le)
  with assms(3) have klo: "real_of_int ?k \<le> ?x" by (simp add: pos_le_divide_eq)
  then have "real_of_int (?k * 2 ^ ?j) * ulp ?x \<le> ?x" by (simp only: grid)
  from fl_grid_ge [OF x this] have lo: "real_of_int ?k \<le> fl ?x" by (simp only: grid)
  have "a < (?k + 1) * d"
    using assms(3) by (metis add.commute distrib_right mult.commute mult_1 pos_mod_bound
        mult_div_mod_eq add_strict_left_mono)
  then have "a + 1 \<le> (?k + 1) * d" by simp
  then have "real_of_int (a + 1) \<le> real_of_int ((?k + 1) * d)" by (simp only: of_int_le_iff)
  then have "real_of_int a + 1 \<le> (real_of_int ?k + 1) * real_of_int d" by simp
  with assms(3) have xhi: "?x + 1 / real_of_int d \<le> real_of_int ?k + 1"
    by (simp add: field_simps)
  from binade_bounds [OF x] have "2 ^ 52 * ulp ?x \<le> ?x" by (simp add: two_powi_52)
  then have "2 ^ 52 * ulp ?x * real_of_int d \<le> real_of_int a"
    using assms(3) by (simp add: pos_le_divide_eq)
  moreover define P where "P = ulp ?x * real_of_int d"
  ultimately have "2 ^ 52 * P \<le> real_of_int a" by (simp add: mult.assoc)
  with \<open>real_of_int a < 2 ^ 53\<close> have "P < 2" by simp
  then have "ulp ?x * real_of_int d < 2" by (simp only: P_def)
  then have "ulp ?x / 2 < 1 / real_of_int d"
    using assms(3) by (simp add: field_simps)
  with xhi have "?x + ulp ?x / 2 < real_of_int ?k + 1" by simp
  then have "(?x + ulp ?x / 2) / ulp ?x < (real_of_int ?k + 1) / ulp ?x"
    by (rule divide_strict_right_mono) simp
  moreover have "(?x + ulp ?x / 2) / ulp ?x = ?x / ulp ?x + 1 / 2"
    by (simp add: add_divide_distrib)
  moreover have "(real_of_int ?k + 1) / ulp ?x = real_of_int ((?k + 1) * 2 ^ ?j)"
    by (simp add: u)
  ultimately have "?x / ulp ?x + 1 / 2 < real_of_int ((?k + 1) * 2 ^ ?j)"
    by (simp only:)
  then have "rne (?x / ulp ?x) < (?k + 1) * 2 ^ ?j" by (rule rne_less)
  then have "real_of_int (rne (?x / ulp ?x)) < real_of_int ((?k + 1) * 2 ^ ?j)"
    by (simp only: of_int_less_iff)
  then have "real_of_int (rne (?x / ulp ?x)) * ulp ?x < real_of_int ((?k + 1) * 2 ^ ?j) * ulp ?x"
    by (rule mult_strict_right_mono) simp
  then have "fl ?x < real_of_int (?k + 1)"
    using x by (simp only: grid fl_pos)
  with lo show ?thesis by (intro floor_unique) simp_all
qed


text \<open>Rules to run the operators on numerals.\<close>

lemma fl_numeral [simp]:
  "(numeral k :: real) \<le> 9007199254740992 \<Longrightarrow> fl (numeral k) = numeral k"
  using fl_of_int [of "numeral k"] by simp

lemma fl_1 [simp]: "fl 1 = 1"
  using fl_of_int [of 1] by simp

lemma floor_fl_div_numeral [simp]:
  "(numeral a :: int) < 9007199254740992 \<Longrightarrow>
     \<lfloor>fl (numeral a / numeral d)\<rfloor> = numeral a div numeral d"
  using floor_fl_div [of "numeral a" "numeral d"] by simp

lemma floor_fl_div_1 [simp]: "\<lfloor>fl (1 / numeral d)\<rfloor> = 1 div numeral d"
  using floor_fl_div [of 1 "numeral d"] by simp

lemma floor_fl_div_int:
  "0 \<le> a \<Longrightarrow> a < 2 ^ 53 \<Longrightarrow> \<lfloor>js_div (real_of_int a) (numeral d)\<rfloor> = a div numeral d"
  using floor_fl_div [of a "numeral d"] by (simp add: js_div_def)

text \<open>The value of \<open>fl\<close> from the binade of its argument.\<close>

lemma fl_eval:
  assumes "0 < x" and "2 powi e \<le> x" and "x < 2 powi (e + 1)"
  shows "fl x = real_of_int (rne (x / 2 powi (e - 52))) * 2 powi (e - 52)"
proof -
  from assms have "binade x = e" by (rule binade_eqI)
  with assms(1) show ?thesis by (simp add: fl_pos ulp_def)
qed

subsection \<open>Printing numbers\<close>

lemma decimal_0 [simp]: "decimal 0 = ''0''"
  by (simp add: decimal.simps)

lemma decimal_1 [simp]: "decimal (Suc 0) = ''1''"
  by (simp add: decimal.simps)

lemma decimal_numeral [simp]:
  "decimal (numeral k) =
     (if (numeral k :: nat) < 10 then [''0123456789'' ! numeral k]
      else decimal (numeral k div 10) @ [''0123456789'' ! (numeral k mod 10)])"
  by (rule decimal.simps)

lemma below_ten:
  "(d::nat) < 10 \<Longrightarrow> d = 0 \<or> d = 1 \<or> d = 2 \<or> d = 3 \<or> d = 4 \<or> d = 5 \<or> d = 6 \<or> d = 7 \<or> d = 8 \<or> d = 9"
  by arith

lemma digit_val_nth: "d < 10 \<Longrightarrow> digit_val (''0123456789'' ! d) = d"
  by (drule below_ten) (auto simp: digit_val_def)

lemma is_digit_nth: "d < 10 \<Longrightarrow> is_digit (''0123456789'' ! d)"
  by (drule below_ten) (auto simp: is_digit_def)

lemma num_of_snoc: "num_of (cs @ [c]) = 10 * num_of cs + digit_val c"
  by (simp add: num_of_def)

lemma num_of_decimal: "num_of (decimal n) = n"
proof (induction n rule: decimal.induct)
  case (1 n)
  show ?case
  proof (cases "n < 10")
    case True
    then show ?thesis
      by (subst decimal.simps) (simp add: num_of_def digit_val_nth)
  next
    case False
    with 1 have "num_of (decimal (n div 10)) = n div 10" by simp
    with False show ?thesis
      by (subst decimal.simps) (simp add: num_of_snoc digit_val_nth)
  qed
qed

lemma digits_decimal: "list_all is_digit (decimal n)"
proof (induction n rule: decimal.induct)
  case (1 n)
  show ?case
  proof (cases "n < 10")
    case True
    then show ?thesis
      by (subst decimal.simps) (simp add: is_digit_nth)
  next
    case False
    with 1 have "list_all is_digit (decimal (n div 10))" by simp
    with False show ?thesis
      by (subst decimal.simps) (simp add: is_digit_nth)
  qed
qed

lemma decimal_unfold:
  "10 \<le> n \<Longrightarrow> decimal n = decimal (n div 10) @ [''0123456789'' ! (n mod 10)]"
  by (subst decimal.simps) simp

lemma length_decimal_small: "n < 10 \<Longrightarrow> length (decimal n) = 1"
  by (subst decimal.simps) simp

lemma length_decimal_le: "n < 10 ^ m \<Longrightarrow> 0 < m \<Longrightarrow> length (decimal n) \<le> m"
proof (induction n arbitrary: m rule: decimal.induct)
  case (1 n)
  show ?case
  proof (cases "n < 10")
    case True
    with "1.prems" show ?thesis by (simp add: length_decimal_small)
  next
    case False
    with "1.prems" obtain m' where m: "m = Suc m'" by (cases m) auto
    with False "1.prems" have "0 < m'" by (cases m') auto
    moreover from "1.prems" m have "n div 10 < 10 ^ m'"
      by (simp add: less_mult_imp_div_less mult.commute)
    ultimately have "length (decimal (n div 10)) \<le> m'"
      using False by (intro "1.IH") simp_all
    with False m show ?thesis by (simp add: decimal_unfold)
  qed
qed

lemma decimal_times_10: "0 < n \<Longrightarrow> decimal (n * 10) = decimal n @ ''0''"
  by (simp add: decimal_unfold)

lemma decimal_shift: "0 < n \<Longrightarrow> decimal (n * 10 ^ j) = decimal n @ replicate j CHR ''0''"
proof (induction j)
  case 0
  then show ?case by simp
next
  case (Suc j)
  then have "decimal (n * 10 ^ j * 10) = decimal (n * 10 ^ j) @ ''0''"
    by (intro decimal_times_10) simp
  moreover have "n * 10 ^ Suc j = n * 10 ^ j * 10" by simp
  ultimately have "decimal (n * 10 ^ Suc j) = decimal (n * 10 ^ j) @ ''0''"
    by (simp only:)
  with Suc show ?case
    by (simp add: replicate_append_same)
qed

lemma candidates_exact:
  assumes "(p, s) \<in> set (candidates x k p')" and "0 \<le> x" and "x < 2 ^ 53"
  shows "s * 10 ^ (p - k) = x \<and> 0 < s \<and> p = p'"
proof -
  from assms(1) have p: "p = p'" and s: "10 ^ (k - 1) \<le> s"
    and f: "fl (real_of_int (s * 10 ^ (p - k))) = real_of_int x"
    by (auto simp: candidates_def split: if_splits)
  have "(0::int) < 10 ^ (k - 1)" by simp
  with s have pos: "0 < s" by linarith
  then have "0 \<le> s * 10 ^ (p - k)" by simp
  from fl_of_int_inj [OF this assms(2,3) f] pos p show ?thesis by simp
qed

lemma foldl_closer_mem: "foldl (closer x k) c cs \<in> set (c # cs)"
proof (induction cs arbitrary: c)
  case Nil
  then show ?case by simp
next
  case (Cons a cs)
  have "closer x k c a = c \<or> closer x k c a = a" by (simp add: closer_def Let_def)
  with Cons [of "closer x k c a"] show ?case by auto
qed

lemma best_mem: "best x k cs = Some c \<Longrightarrow> c \<in> set cs"
proof (cases cs)
  case Nil
  then show "best x k cs = Some c \<Longrightarrow> c \<in> set cs" by simp
next
  case (Cons a as)
  assume "best x k cs = Some c"
  with Cons have "c = foldl (closer x k) a as" by simp
  with foldl_closer_mem [of x k a as] Cons show "c \<in> set cs" by simp
qed

lemma shortest_exact:
  assumes "0 < x" and "x < 2 ^ 53"
  shows "shortest x len fuel k = (k', p, s) \<Longrightarrow>
           s * 10 ^ (p - k') = x \<and> 0 < s \<and> p \<le> Suc len"
proof (induction fuel arbitrary: k)
  case 0
  with assms show ?case by simp
next
  case (Suc fuel)
  show ?case
  proof (cases "best x k (candidates x k len @ candidates x k (Suc len))")
    case None
    with Suc.prems have "shortest x len fuel (Suc k) = (k', p, s)" by simp
    then show ?thesis by (rule Suc.IH)
  next
    case (Some c)
    with Suc.prems have c: "c = (p, s)" "k' = k" by (simp_all split: prod.splits)
    from Some have "c \<in> set (candidates x k len @ candidates x k (Suc len))"
      by (rule best_mem)
    with c have "(p, s) \<in> set (candidates x k len) \<or> (p, s) \<in> set (candidates x k (Suc len))"
      by simp
    with assms candidates_exact [of p s x k len] candidates_exact [of p s x k "Suc len"] c
    show ?thesis by auto
  qed
qed

lemma String_pos_exact:
  assumes "0 < x" and "x < 2 ^ 53"
  shows "String_pos x = decimal (nat x)"
proof -
  obtain k p s where d: "digits x = (k, p, s)" by (cases "digits x")
  let ?len = "length (decimal (nat x))"
  from d have "shortest x ?len ?len 1 = (k, p, s)" by (simp add: digits_def Let_def)
  from shortest_exact [OF assms this]
  have e: "s * 10 ^ (p - k) = x" "0 < s" "p \<le> Suc ?len" by simp_all
  from assms have "nat x < 10 ^ 16" by simp
  then have "?len \<le> 16" by (rule length_decimal_le) simp
  with e(3) have p: "p \<le> 21" by simp
  have "nat (s * 10 ^ (p - k)) = nat s * nat (10 ^ (p - k))"
    using e(2) by (intro nat_mult_distrib) simp
  moreover have "nat ((10::int) ^ (p - k)) = 10 ^ (p - k)"
    by (simp add: nat_power_eq)
  ultimately have "nat x = nat s * 10 ^ (p - k)"
    by (simp only: e(1))
  moreover from e(2) have "0 < nat s" by simp
  ultimately have "decimal (nat x) = decimal (nat s) @ replicate (p - k) CHR ''0''"
    by (simp add: decimal_shift)
  with d p show ?thesis by (simp add: String_pos_def)
qed

lemma String_int_exact: "0 \<le> n \<Longrightarrow> n < 2 ^ 53 \<Longrightarrow> String_int n = decimal (nat n)"
  using String_pos_exact [of n] by (cases "n = 0") (simp_all add: String_int_def decimal.simps)


lemma String_int_numeral [simp]:
  "(numeral k :: int) < 9007199254740992 \<Longrightarrow> String_int (numeral k) = decimal (numeral k)"
  using String_int_exact [of "numeral k"] by simp

lemma String_int_0 [simp]: "String_int 0 = ''0''"
  by (simp add: String_int_def)

lemma String_int_1 [simp]: "String_int 1 = ''1''"
  using String_int_exact [of 1] by simp

lemma length_decimal_pos: "Suc 0 \<le> length (decimal n)"
  by (subst decimal.simps) simp

lemma length_decimal_ge2: "10 \<le> n \<Longrightarrow> 2 \<le> length (decimal n)"
  using length_decimal_pos [of "n div 10"] by (simp add: decimal_unfold)

lemma length_decimal_two: "10 \<le> n \<Longrightarrow> n < 100 \<Longrightarrow> length (decimal n) = 2"
  by (simp add: decimal_unfold length_decimal_small)

lemma length_decimal_large: "100 \<le> n \<Longrightarrow> 3 \<le> length (decimal n)"
  using length_decimal_ge2 [of "n div 10"] by (simp add: decimal_unfold)


lemma two_nonneg:
  "0 \<le> n \<Longrightarrow> n < 2 ^ 53 \<Longrightarrow>
     two n = (if n < 10 then CHR ''0'' # decimal (nat n) else decimal (nat n))"
  using length_decimal_ge2 [of "nat n"]
  by (simp add: two_def padStart_def String_int_exact length_decimal_small)

lemma js_rem_nonneg: "0 \<le> a \<Longrightarrow> 0 < b \<Longrightarrow> js_rem a b = a mod b"
  by (cases "a = 0") (simp_all add: js_rem_def)

lemma num_of_two: "0 \<le> n \<Longrightarrow> n < 2 ^ 53 \<Longrightarrow> int (num_of (two n)) = n"
proof -
  assume n: "0 \<le> n" "n < 2 ^ 53"
  have "num_of (CHR ''0'' # decimal (nat n)) = num_of (decimal (nat n))"
    by (simp add: num_of_def digit_val_def)
  with n show ?thesis
    by (simp add: two_nonneg num_of_decimal)
qed

lemma digits_two: "0 \<le> n \<Longrightarrow> n < 2 ^ 53 \<Longrightarrow> list_all is_digit (two n)"
  by (simp add: two_nonneg digits_decimal is_digit_def)

lemma length_two_small: "0 \<le> n \<Longrightarrow> n < 100 \<Longrightarrow> length (two n) = 2"
  using length_decimal_two [of "nat n"]
  by (simp add: two_nonneg length_decimal_small)

lemma length_two_large: "99 < n \<Longrightarrow> n < 2 ^ 53 \<Longrightarrow> 2 < length (two n)"
proof -
  assume n: "99 < n" "n < 2 ^ 53"
  then have "100 \<le> nat n" by simp
  then have "3 \<le> length (decimal (nat n))" by (rule length_decimal_large)
  with n show ?thesis by (simp add: two_nonneg)
qed

lemma length_two_ge: "0 \<le> n \<Longrightarrow> n < 2 ^ 53 \<Longrightarrow> 2 \<le> length (two n)"
  using length_two_small [of n] length_two_large [of n]
  by (cases "n < 100") simp_all

lemma formatTime_nonneg:
  assumes "0 \<le> t" and "t < 2 ^ 53"
  shows "formatTime t =
     two (t div 3600) @ '':'' @ two (t mod 3600 div 60) @ '':'' @ two (t mod 60)"
proof -
  from assms have h: "\<lfloor>js_div (real_of_int t) 3600\<rfloor> = t div 3600"
    by (rule floor_fl_div_int)
  have "0 \<le> t mod 3600" "t mod 3600 < 2 ^ 53"
    using pos_mod_bound [of 3600 t] by simp_all
  then have m: "\<lfloor>js_div (real_of_int (t mod 3600)) 60\<rfloor> = t mod 3600 div 60"
    by (rule floor_fl_div_int)
  from assms(1) h m show ?thesis
    by (simp add: formatTime_def js_rem_nonneg)
qed

lemma formatTime_eval:
  "0 \<le> (numeral k :: int) \<Longrightarrow> (numeral k :: int) < 2 ^ 53 \<Longrightarrow>
     formatTime (numeral k) =
       two (numeral k div 3600) @ '':'' @ two (numeral k mod 3600 div 60) @ '':'' @
       two (numeral k mod 60)"
  by (rule formatTime_nonneg)

lemma formatTime_0 [simp]: "formatTime 0 = ''00:00:00''"
  using formatTime_nonneg [of 0] by (simp add: two_def padStart_def)

lemma formatTime_1 [simp]: "formatTime 1 = ''00:00:01''"
  using formatTime_nonneg [of 1] by (simp add: two_def padStart_def)

text \<open>
  Claim C9, as the script has it. For every non-negative integer \<open>t\<close> below \<open>2 ^ 53\<close>,
  the integers a number holds exactly, \<open>formatTime t\<close> is \<open>H:M:S\<close>, three strings of
  decimal digits that denote \<open>t div 3600\<close>, \<open>(t mod 3600) div 60\<close> and \<open>t mod 60\<close>.
  Each has at least two characters: minutes and seconds exactly two, hours two as long
  as they are below 100 and more from 100 on.
\<close>

theorem formatTime_components:
  assumes "0 \<le> t" and "t < 2 ^ 53"
  shows "\<exists>H M S. formatTime t = H @ '':'' @ M @ '':'' @ S
           \<and> list_all is_digit H \<and> list_all is_digit M \<and> list_all is_digit S
           \<and> int (num_of H) = t div 3600
           \<and> int (num_of M) = t mod 3600 div 60
           \<and> int (num_of S) = t mod 60
           \<and> 2 \<le> length H \<and> length M = 2 \<and> length S = 2
           \<and> (t div 3600 < 100 \<longrightarrow> length H = 2)
           \<and> (99 < t div 3600 \<longrightarrow> 2 < length H)"
proof -
  let ?h = "t div 3600" and ?m = "t mod 3600 div 60" and ?s = "t mod 60"
  from assms have h: "0 \<le> ?h" and m: "0 \<le> ?m" "?m < 100" and s: "0 \<le> ?s" "?s < 100"
    by (simp_all add: pos_imp_zdiv_nonneg_iff)
  have "?h \<le> t" using zdiv_mono2 [of t 1 3600] assms(1) by simp
  with assms(2) have hb: "?h < 2 ^ 53" by simp
  from m s have mb: "?m < 2 ^ 53" and sb: "?s < 2 ^ 53" by simp_all
  have "formatTime t = two ?h @ '':'' @ two ?m @ '':'' @ two ?s"
    using assms by (rule formatTime_nonneg)
  moreover have "list_all is_digit (two ?h)" using h hb by (rule digits_two)
  moreover have "list_all is_digit (two ?m)" using m(1) mb by (rule digits_two)
  moreover have "list_all is_digit (two ?s)" using s(1) sb by (rule digits_two)
  moreover have "int (num_of (two ?h)) = ?h" using h hb by (rule num_of_two)
  moreover have "int (num_of (two ?m)) = ?m" using m(1) mb by (rule num_of_two)
  moreover have "int (num_of (two ?s)) = ?s" using s(1) sb by (rule num_of_two)
  moreover have "2 \<le> length (two ?h)" using h hb by (rule length_two_ge)
  moreover have "length (two ?m) = 2" using m by (rule length_two_small)
  moreover have "length (two ?s) = 2" using s by (rule length_two_small)
  moreover have "?h < 100 \<longrightarrow> length (two ?h) = 2"
    using h by (blast intro: length_two_small)
  moreover have "99 < ?h \<longrightarrow> 2 < length (two ?h)"
    using hb by (blast intro: length_two_large)
  ultimately show ?thesis by blast
qed

theorem formatTime_components_witness:
  "(0::int) \<le> 360000 \<and> (360000::int) < 2 ^ 53 \<and> formatTime 360000 = ''100:00:00'' \<and>
   (\<exists>H M S. formatTime 360000 = H @ '':'' @ M @ '':'' @ S
      \<and> int (num_of H) = 100 \<and> int (num_of M) = 0 \<and> int (num_of S) = 0 \<and> 2 < length H)"
proof -
  have v: "formatTime 360000 = ''100:00:00''"
    by (simp add: formatTime_eval two_def padStart_def)
  have a: "(0::int) \<le> 360000" and b: "(360000::int) < 2 ^ 53" by simp_all
  from formatTime_components [OF a b] obtain H M S where
    "formatTime 360000 = H @ '':'' @ M @ '':'' @ S" "int (num_of H) = 360000 div 3600"
    "int (num_of M) = 360000 mod 3600 div 60" "int (num_of S) = 360000 mod 60"
    "99 < (360000::int) div 3600 \<longrightarrow> 2 < length H"
    by blast
  then have e: "\<exists>H M S. formatTime 360000 = H @ '':'' @ M @ '':'' @ S
      \<and> int (num_of H) = 100 \<and> int (num_of M) = 0 \<and> int (num_of S) = 0 \<and> 2 < length H"
    by auto
  show ?thesis
  proof (intro conjI)
    show "(0::int) \<le> 360000" by simp
    show "(360000::int) < 2 ^ 53" by simp
    show "formatTime 360000 = ''100:00:00''" by (rule v)
    show "\<exists>H M S. formatTime 360000 = H @ '':'' @ M @ '':'' @ S
      \<and> int (num_of H) = 100 \<and> int (num_of M) = 0 \<and> int (num_of S) = 0 \<and> 2 < length H"
      by (rule e)
  qed
qed

text \<open>
  The claim as the specification states it, for every non-negative integer, fails at
  \<open>t = 253327479039593984\<close>, a number the format holds: the quotient by 3600 lies
  less than half a unit in its last place below 70368744177665 and rounds up to it,
  so \<open>formatTime\<close> prints that hour where \<open>t div 3600\<close> is 70368744177664.
\<close>

lemma rne_numeral [simp]: "rne (numeral k) = numeral k"
  using rne_of_int [of "numeral k"] by simp

lemma big_is_double: "fl 253327479039593984 = 253327479039593984"
proof -
  have "fl 253327479039593984 =
      real_of_int (rne (253327479039593984 / 2 powi (57 - 52))) * 2 powi (57 - 52)"
    by (rule fl_eval) simp_all
  then show ?thesis by simp
qed

lemma big_hours: "\<lfloor>js_div 253327479039593984 3600\<rfloor> = 70368744177665"
proof -
  have "fl (253327479039593984 / 3600) =
      real_of_int (rne (253327479039593984 / 3600 / 2 powi (46 - 52))) * 2 powi (46 - 52)"
    by (rule fl_eval) simp_all
  then have "fl (253327479039593984 / 3600) = 70368744177665"
    by (simp add: rne_def)
  then show ?thesis by (simp add: js_div_def)
qed

theorem formatTime_hours_counterexample:
  "(0::int) \<le> 253327479039593984 \<and>
   fl 253327479039593984 = 253327479039593984 \<and>
   formatTime 253327479039593984 = ''70368744177665:59:44'' \<and>
   (253327479039593984::int) div 3600 = 70368744177664 \<and>
   spec_formatTime 253327479039593984 = ''70368744177664:59:44'' \<and>
   formatTime 253327479039593984 \<noteq> spec_formatTime 253327479039593984"
proof -
  have f: "formatTime 253327479039593984 = ''70368744177665:59:44''"
    using big_hours by (simp add: formatTime_def js_rem_def js_div_def two_def padStart_def)
  have s: "spec_formatTime 253327479039593984 = ''70368744177664:59:44''"
    by (simp add: spec_formatTime_def spec_two_def)
  from f s big_is_double show ?thesis by simp
qed

subsection \<open>What each function changes\<close>

lemma js_add_mono: "b \<le> b' \<Longrightarrow> js_add a b \<le> js_add a b'"
  by (simp add: js_add_def fl_mono)

lemma js_add_nonneg: "0 \<le> a \<Longrightarrow> 0 \<le> b \<Longrightarrow> 0 \<le> js_add a b"
  by (simp add: js_add_def fl_nonneg)

lemma js_sub_mono: "t \<le> t' \<Longrightarrow> js_sub t a \<le> js_sub t' a"
  by (simp add: js_sub_def fl_mono)

lemma js_sub_nonneg: "a \<le> t \<Longrightarrow> 0 \<le> js_sub t a"
  by (simp add: js_sub_def fl_nonneg)

lemma js_add_0_idem [simp]: "js_add (js_add a b) 0 = js_add a b"
  by (simp add: js_add_def)

lemma js_add_0_0 [simp]: "js_add 0 0 = 0"
  by (simp add: js_add_def)

lemma saveState_eq:
  "saveState w s = (if storageThrows s then s else s\<lparr>storage := Some (Parsable (payload w s))\<rparr>)"
  by (simp add: saveState_def setItem_def)

lemma saveState_core [simp]:
  "intervalId (saveState w s) = intervalId s"
  "startTimestamp (saveState w s) = startTimestamp s"
  "elapsedMs (saveState w s) = elapsedMs s"
  "laps (saveState w s) = laps s"
  "lapBtn_disabled (saveState w s) = lapBtn_disabled s"
  "timers (saveState w s) = timers s"
  "storageThrows (saveState w s) = storageThrows s"
  by (simp_all add: saveState_eq)

lemma updateDisplay_core [simp]:
  "intervalId (updateDisplay now s) = intervalId s"
  "startTimestamp (updateDisplay now s) = startTimestamp s"
  "elapsedMs (updateDisplay now s) = elapsedMs s"
  "laps (updateDisplay now s) = laps s"
  "lapBtn_disabled (updateDisplay now s) = lapBtn_disabled s"
  "timers (updateDisplay now s) = timers s"
  "storage (updateDisplay now s) = storage s"
  "storageThrows (updateDisplay now s) = storageThrows s"
  by (simp_all add: updateDisplay_def)

lemma fresh_env [simp]:
  "storage (fresh env) = storage env" "storageThrows (fresh env) = storageThrows env"
  "intervalId (fresh env) = None" "startTimestamp (fresh env) = 0"
  "elapsedMs (fresh env) = 0" "laps (fresh env) = []"
  "lapBtn_disabled (fresh env) = lapBtn_disabled env" "timers (fresh env) = timers env"
  "lastHandle (fresh env) = lastHandle env"
  by (simp_all add: fresh_def)

lemma not_running_fresh [simp]: "\<not> running (fresh env)"
  by (simp add: running_def)

lemma currentElapsedMs_saveState [simp]:
  "currentElapsedMs (saveState w s) now = currentElapsedMs s now"
  by (simp add: currentElapsedMs_def)

lemma running_saveState [simp]: "running (saveState w s) = running s"
  by (simp add: running_def)

lemma renderLaps_eq:
  "renderLaps s =
     (if laps s = [] then (None, s\<lparr>lapsList := []\<rparr>)
      else (fst (render_items (length (laps s)) (laps s) []),
            s\<lparr>lapsList := snd (render_items (length (laps s)) (laps s) [])\<rparr>))"
  by (simp add: renderLaps_def Let_def split: prod.splits)

lemma renderLaps_shape: "\<exists>e items. renderLaps s = (e, s\<lparr>lapsList := items\<rparr>)"
  by (subst renderLaps_eq) (simp del: One_nat_def, blast)

lemma startBtn_click_running: "running s \<Longrightarrow> startBtn_click now now' s = s"
  by (simp add: startBtn_click_def running_def)

lemma startBtn_click_stopped:
  "\<not> running s \<Longrightarrow>
     intervalId (startBtn_click now now' s) = Some (Suc (lastHandle s)) \<and>
     startTimestamp (startBtn_click now now' s) = now \<and>
     elapsedMs (startBtn_click now now' s) = elapsedMs s \<and>
     laps (startBtn_click now now' s) = laps s \<and>
     lapBtn_disabled (startBtn_click now now' s) = False \<and>
     timers (startBtn_click now now' s) = insert (Suc (lastHandle s)) (timers s) \<and>
     storage (startBtn_click now now' s) = storage s \<and>
     storageThrows (startBtn_click now now' s) = storageThrows s"
  by (simp add: startBtn_click_def running_def setInterval_def Let_def)

lemma running_startBtn_click [simp]: "running (startBtn_click now now' s)"
  by (cases "running s")
    (simp_all add: startBtn_click_running, simp add: startBtn_click_stopped running_def)

lemma stopBtn_click_stopped: "\<not> running s \<Longrightarrow> stopBtn_click now now' w s = s"
  by (simp add: stopBtn_click_def running_def)

lemma stopBtn_click_running:
  "running s \<Longrightarrow>
     intervalId (stopBtn_click now now' w s) = None \<and>
     startTimestamp (stopBtn_click now now' w s) = startTimestamp s \<and>
     elapsedMs (stopBtn_click now now' w s) = js_add (elapsedMs s) (js_sub now (startTimestamp s)) \<and>
     laps (stopBtn_click now now' w s) = laps s \<and>
     lapBtn_disabled (stopBtn_click now now' w s) = True \<and>
     timers (stopBtn_click now now' w s) = timers s - {the (intervalId s)} \<and>
     storageThrows (stopBtn_click now now' w s) = storageThrows s"
  by (cases "intervalId s") (simp_all add: stopBtn_click_def running_def Let_def)

lemma not_running_stopBtn_click [simp]: "\<not> running (stopBtn_click now now' w s)"
  by (cases "running s")
    (simp_all add: stopBtn_click_stopped, simp add: stopBtn_click_running running_def)

lemma renderLaps_Nil: "laps s = [] \<Longrightarrow> renderLaps s = (None, s\<lparr>lapsList := []\<rparr>)"
  by (simp add: renderLaps_eq)

lemma resetBtn_click_fields:
  "intervalId (resetBtn_click now' w s) = (if running s then None else intervalId s) \<and>
   startTimestamp (resetBtn_click now' w s) = 0 \<and>
   elapsedMs (resetBtn_click now' w s) = 0 \<and>
   laps (resetBtn_click now' w s) = [] \<and>
   lapBtn_disabled (resetBtn_click now' w s) = True \<and>
   timers (resetBtn_click now' w s) =
     (if running s then timers s - {the (intervalId s)} else timers s)"
  by (cases "intervalId s")
    (simp_all add: resetBtn_click_def running_def renderLaps_Nil Let_def)

lemma not_running_resetBtn_click [simp]: "\<not> running (resetBtn_click now' w s)"
  by (cases "running s") (simp_all add: resetBtn_click_fields running_def)

lemma lapBtn_click_shape:
  "\<exists>items st. lapBtn_click now w s =
      s\<lparr>laps := new_lap s now # laps s, lapsList := items, storage := st\<rparr>"
proof -
  let ?s1 = "s\<lparr>laps := new_lap s now # laps s\<rparr>"
  obtain e items where r: "renderLaps ?s1 = (e, ?s1\<lparr>lapsList := items\<rparr>)"
    using renderLaps_shape by blast
  show ?thesis
  proof (cases e)
    case None
    with r have "lapBtn_click now w s = saveState w (?s1\<lparr>lapsList := items\<rparr>)"
      by (simp add: lapBtn_click_def)
    then show ?thesis
      by (cases s) (auto simp: saveState_eq intro: exI [of _ items])
  next
    case (Some x)
    with r have "lapBtn_click now w s = ?s1\<lparr>lapsList := items\<rparr>"
      by (simp add: lapBtn_click_def)
    then show ?thesis
      by (cases s) (auto intro: exI [of _ items])
  qed
qed

lemma lapBtn_click_fields [simp]:
  "intervalId (lapBtn_click now w s) = intervalId s"
  "startTimestamp (lapBtn_click now w s) = startTimestamp s"
  "elapsedMs (lapBtn_click now w s) = elapsedMs s"
  "laps (lapBtn_click now w s) = new_lap s now # laps s"
  "lapBtn_disabled (lapBtn_click now w s) = lapBtn_disabled s"
  "timers (lapBtn_click now w s) = timers s"
  "storageThrows (lapBtn_click now w s) = storageThrows s"
proof -
  obtain items st where
    eq: "lapBtn_click now w s = s\<lparr>laps := new_lap s now # laps s, lapsList := items, storage := st\<rparr>"
    using lapBtn_click_shape by blast
  show "intervalId (lapBtn_click now w s) = intervalId s"
    "startTimestamp (lapBtn_click now w s) = startTimestamp s"
    "elapsedMs (lapBtn_click now w s) = elapsedMs s"
    "laps (lapBtn_click now w s) = new_lap s now # laps s"
    "lapBtn_disabled (lapBtn_click now w s) = lapBtn_disabled s"
    "timers (lapBtn_click now w s) = timers s"
    "storageThrows (lapBtn_click now w s) = storageThrows s"
    by (simp_all add: eq)
qed

lemma running_lapBtn_click [simp]: "running (lapBtn_click now w s) = running s"
  by (simp add: running_def)

lemma render_items_raises:
  "(fst (render_items n ls acc) = None) = list_all renders ls"
proof (induction ls arbitrary: n acc)
  case Nil
  then show ?case by simp
next
  case (Cons l ls)
  then show ?case
    by (auto simp: renders_def split: sum.splits option.splits)
qed

lemma renderLaps_raises: "(fst (renderLaps s) = None) = list_all renders (laps s)"
  by (simp add: renderLaps_eq render_items_raises del: One_nat_def)

lemma renders_new_lap [simp]: "renders (new_lap s now)"
  by (simp add: renders_def new_lap_def Let_def)

lemma lapBtn_click_saves:
  assumes "list_all renders (laps s)" and "\<not> storageThrows s"
  shows "storage (lapBtn_click now w s) = Some (Parsable (payload w (lapBtn_click now w s)))"
proof -
  let ?s1 = "s\<lparr>laps := new_lap s now # laps s\<rparr>"
  from assms have "fst (renderLaps ?s1) = None"
    by (simp add: renderLaps_raises)
  moreover obtain e items where r: "renderLaps ?s1 = (e, ?s1\<lparr>lapsList := items\<rparr>)"
    using renderLaps_shape by blast
  ultimately have "lapBtn_click now w s = saveState w (?s1\<lparr>lapsList := items\<rparr>)"
    by (simp add: lapBtn_click_def)
  with assms show ?thesis
    by (simp add: saveState_eq payload_def)
qed

text \<open>The pages of the examples.\<close>

lemma blank_page_fields [simp]:
  "storage blank_page = None" "\<not> storageThrows blank_page" "lastHandle blank_page = 0"
  "timers blank_page = {}" "\<not> lapBtn_disabled blank_page"
  by (simp_all add: blank_page_def)

lemma started_fields [simp]:
  "intervalId started = Some 1" "startTimestamp started = 0" "elapsedMs started = 0"
  "laps started = []" "timers started = {1}" "storage started = None"
  "\<not> storageThrows started" "\<not> lapBtn_disabled started"
  by (simp_all add: started_def startBtn_click_stopped)

lemma running_started [simp]: "running started"
  by (simp add: started_def)

lemma new_lap_started: "new_lap started 1500 = JObj [(''timeMs'', JNum 1500), (''label'', JStr ''00:00:01'')]"
  by (simp add: new_lap_def currentElapsedMs_def js_add_def js_sub_def js_div_def)

subsection \<open>Elapsed time\<close>

lemma call_step:
  assumes e: "0 \<le> elapsedMs s"
    and a: "running s \<longrightarrow> startTimestamp s \<le> t0"
    and t: "sorted (t0 # readings c)"
  shows "0 \<le> elapsedMs (apply_call c s)"
    and "running (apply_call c s) \<longrightarrow> startTimestamp (apply_call c s) \<le> instant c"
    and "currentElapsedMs s t0 \<le> currentElapsedMs (apply_call c s) (instant c)"
proof -
  show "0 \<le> elapsedMs (apply_call c s)"
  proof (cases c)
    case (Start now now')
    with e show ?thesis
      by (cases "running s") (simp_all add: startBtn_click_running startBtn_click_stopped)
  next
    case (Stop now now' w)
    with e a t show ?thesis
      by (cases "running s")
        (simp_all add: stopBtn_click_running stopBtn_click_stopped js_add_nonneg js_sub_nonneg)
  next
    case (Query now)
    with e show ?thesis by simp
  qed
  show "running (apply_call c s) \<longrightarrow> startTimestamp (apply_call c s) \<le> instant c"
  proof (cases c)
    case (Start now now')
    with a t show ?thesis
      by (cases "running s") (simp_all add: startBtn_click_running startBtn_click_stopped)
  next
    case (Stop now now' w)
    then show ?thesis by simp
  next
    case (Query now)
    with a t show ?thesis by auto
  qed
  show "currentElapsedMs s t0 \<le> currentElapsedMs (apply_call c s) (instant c)"
  proof (cases c)
    case (Start now now')
    show ?thesis
    proof (cases "running s")
      case True
      with Start a t show ?thesis
        by (simp add: startBtn_click_running currentElapsedMs_def running_def
            js_add_mono js_sub_mono)
    next
      case False
      with Start t show ?thesis
        by (simp add: startBtn_click_stopped currentElapsedMs_def running_def
            js_add_mono js_sub_nonneg)
    qed
  next
    case (Stop now now' w)
    show ?thesis
    proof (cases "running s")
      case True
      with Stop t show ?thesis
        by (simp add: stopBtn_click_running currentElapsedMs_def running_def
            js_add_mono js_sub_mono)
    next
      case False
      with Stop show ?thesis
        by (simp add: stopBtn_click_stopped currentElapsedMs_def running_def)
    qed
  next
    case (Query now)
    with a t show ?thesis
      by (simp add: currentElapsedMs_def js_add_mono js_sub_mono)
  qed
qed

lemma current_nonneg:
  "0 \<le> elapsedMs s \<Longrightarrow> running s \<longrightarrow> startTimestamp s \<le> t0 \<Longrightarrow> 0 \<le> currentElapsedMs s t0"
  by (simp add: currentElapsedMs_def running_def js_add_nonneg js_sub_nonneg)

lemma sorted_readings:
  "sorted (t0 # readings c @ ts) \<Longrightarrow> sorted (t0 # readings c) \<and> sorted (instant c # ts)"
  by (cases c) auto

lemma observe_sorted:
  "0 \<le> elapsedMs s \<Longrightarrow> running s \<longrightarrow> startTimestamp s \<le> t0 \<Longrightarrow>
   sorted (t0 # concat (map readings cs)) \<Longrightarrow>
   sorted (currentElapsedMs s t0 # observe s cs) \<and>
   list_all (\<lambda>v. 0 \<le> v) (currentElapsedMs s t0 # observe s cs)"
proof (induction cs arbitrary: s t0)
  case Nil
  then show ?case by (simp add: current_nonneg)
next
  case (Cons c cs)
  let ?s' = "apply_call c s"
  from Cons.prems(3) have t: "sorted (t0 # readings c)" "sorted (instant c # concat (map readings cs))"
    using sorted_readings [of t0 c "concat (map readings cs)"] by simp_all
  note st = call_step [OF Cons.prems(1) Cons.prems(2) t(1)]
  from Cons.IH [OF st(1) st(2) t(2)]
  have ih: "sorted (currentElapsedMs ?s' (instant c) # observe ?s' cs)"
    "list_all (\<lambda>v. 0 \<le> v) (currentElapsedMs ?s' (instant c) # observe ?s' cs)"
    by simp_all
  have "0 \<le> currentElapsedMs s t0"
    using Cons.prems(1,2) by (rule current_nonneg)
  with ih st(3) show ?case
    by (auto simp: Let_def)
qed

text \<open>
  Claim C1. Take a state whose \<open>elapsedMs\<close> is not negative and whose anchor, if it
  runs, is not after \<open>t0\<close>, and any sequence of start, stop and query calls whose
  readings of \<open>performance.now()\<close> do not decrease from \<open>t0\<close> on. The values of
  \<open>currentElapsedMs\<close>, at \<open>t0\<close> and after each call, are never negative and never
  decrease.
\<close>

theorem currentElapsedMs_nondecreasing:
  assumes "0 \<le> elapsedMs s"
    and "running s \<longrightarrow> startTimestamp s \<le> t0"
    and "sorted (t0 # concat (map readings cs))"
  shows "sorted (currentElapsedMs s t0 # observe s cs) \<and>
         list_all (\<lambda>v. 0 \<le> v) (currentElapsedMs s t0 # observe s cs)"
  using assms by (rule observe_sorted)

lemma observe_scenario: "observe (fresh blank_page) scenario = [0, 1500, 2000, 2000, 2500]"
  by (simp add: scenario_def Let_def currentElapsedMs_def startBtn_click_stopped
      stopBtn_click_running js_add_def js_sub_def)

theorem currentElapsedMs_nondecreasing_witness:
  "0 \<le> elapsedMs (fresh blank_page) \<and> \<not> running (fresh blank_page) \<and>
   sorted (0 # concat (map readings scenario)) \<and>
   observe (fresh blank_page) scenario = [0, 1500, 2000, 2000, 2500] \<and>
   sorted (currentElapsedMs (fresh blank_page) 0 # observe (fresh blank_page) scenario) \<and>
   list_all (\<lambda>v. 0 \<le> v) (currentElapsedMs (fresh blank_page) 0 # observe (fresh blank_page) scenario)"
proof -
  have h1: "0 \<le> elapsedMs (fresh blank_page)" by simp
  have h2: "\<not> running (fresh blank_page)" by simp
  then have h2': "running (fresh blank_page) \<longrightarrow> startTimestamp (fresh blank_page) \<le> 0"
    by simp
  have h3: "sorted (0 # concat (map readings scenario))" by (simp add: scenario_def)
  from currentElapsedMs_nondecreasing [OF h1 h2' h3] h1 h2 h3 observe_scenario show ?thesis
    by blast
qed

text \<open>
  Claim C6. In a running state, \<open>currentElapsedMs\<close> after a stop at the reading
  \<open>now\<close> is, at any later instant, what it was at \<open>now\<close> before the stop: the last
  segment is counted once.
\<close>

theorem stop_then_query:
  "running s \<Longrightarrow> currentElapsedMs (stopBtn_click now now' w s) u = currentElapsedMs s now"
  by (simp add: stopBtn_click_running currentElapsedMs_def running_def)

theorem stop_then_query_witness:
  "running started \<and> currentElapsedMs started 2000 = 2000 \<and>
   currentElapsedMs (stopBtn_click 2000 2001 7 started) 2002 = 2000"
proof -
  have r: "running started" by simp
  have v: "currentElapsedMs started 2000 = 2000"
    by (simp add: currentElapsedMs_def js_add_def js_sub_def)
  from stop_then_query [OF r, of 2000 2001 7 2002] r v show ?thesis by simp
qed

text \<open>
  Claim C7. A click on Start in a running state returns the state as it is: anchor,
  accumulated time, interval handle and registered intervals. So two clicks in a row
  leave the state of the first.
\<close>

theorem start_idempotent:
  "(running s \<longrightarrow> startBtn_click now now' s = s) \<and>
   startBtn_click u u' (startBtn_click now now' s) = startBtn_click now now' s"
  by (simp add: startBtn_click_running)

theorem start_idempotent_witness:
  "running started \<and> startBtn_click 100 101 started = started \<and> timers started = {1}"
proof -
  have r: "running started" by simp
  have t: "timers started = {1}" by simp
  from start_idempotent [of started 100 101] r t show ?thesis by blast
qed

text \<open>
  Claim C8. From any state, running or not, a reset leaves \<open>currentElapsedMs\<close> at 0 at
  every instant, no laps and a stopped stopwatch; the interval of a running state is
  cleared.
\<close>

theorem reset_clears:
  "currentElapsedMs (resetBtn_click now' w s) u = 0 \<and>
   elapsedMs (resetBtn_click now' w s) = 0 \<and>
   laps (resetBtn_click now' w s) = [] \<and>
   \<not> running (resetBtn_click now' w s) \<and>
   (\<forall>h. running s \<and> intervalId s = Some h \<longrightarrow> h \<notin> timers (resetBtn_click now' w s))"
proof (cases "running s")
  case True
  then show ?thesis
    by (simp add: currentElapsedMs_def resetBtn_click_fields)
next
  case False
  then show ?thesis
    by (simp add: currentElapsedMs_def resetBtn_click_fields running_def)
qed

theorem reset_clears_witness:
  "running started \<and> intervalId started = Some 1 \<and>
   1 \<notin> timers (resetBtn_click 3000 7 started) \<and>
   laps (resetBtn_click 3000 7 started) = [] \<and>
   currentElapsedMs (resetBtn_click 3000 7 started) 9000 = 0"
proof -
  have r: "running started" by simp
  have i: "intervalId started = Some 1" by simp
  from reset_clears [of 3000 7 started 9000] r i show ?thesis by blast
qed

subsection \<open>Laps\<close>

text \<open>
  Claim C10. In every state the lap handler leaves \<open>elapsedMs\<close>, \<open>startTimestamp\<close>
  and \<open>intervalId\<close> as they are and puts one new lap in front of \<open>laps\<close>; apart
  from that only the rendered list and the stored item change. When every lap renders
  and the storage takes the write, the stored item is the snapshot of the new state.
\<close>

theorem lap_frame:
  "elapsedMs (lapBtn_click now w s) = elapsedMs s \<and>
   startTimestamp (lapBtn_click now w s) = startTimestamp s \<and>
   intervalId (lapBtn_click now w s) = intervalId s \<and>
   running (lapBtn_click now w s) = running s \<and>
   laps (lapBtn_click now w s) = new_lap s now # laps s \<and>
   (\<exists>items st. lapBtn_click now w s =
      s\<lparr>laps := new_lap s now # laps s, lapsList := items, storage := st\<rparr>) \<and>
   (list_all renders (laps s) \<and> \<not> storageThrows s \<longrightarrow>
      storage (lapBtn_click now w s) = Some (Parsable (payload w (lapBtn_click now w s))))"
  using lapBtn_click_shape [of now w s] lapBtn_click_saves [of s now w]
  by simp

theorem lap_frame_witness:
  "list_all renders (laps started) \<and> \<not> storageThrows started \<and>
   laps (lapBtn_click 1500 7 started) =
     [JObj [(''timeMs'', JNum 1500), (''label'', JStr ''00:00:01'')]] \<and>
   storage (lapBtn_click 1500 7 started) =
     Some (Parsable (payload 7 (lapBtn_click 1500 7 started)))"
proof -
  have a: "list_all renders (laps started)" by simp
  have b: "\<not> storageThrows started" by simp
  from lap_frame [of 1500 7 started] a b new_lap_started show ?thesis by simp
qed

subsection \<open>Persistence\<close>

lemma loadState_core:
  "intervalId (the_state (loadState s)) = intervalId s"
  "startTimestamp (the_state (loadState s)) = startTimestamp s"
  by (simp_all add: loadState_def loadState_try_def getItem_def Let_def
      split: sum.splits option.splits json.splits if_splits)

lemma loadState_unchanged:
  assumes "storageThrows s \<or> storage s = None \<or> storage s = Some (Unparsable txt) \<or>
     storage s = Some (Parsable JNull)"
  shows "\<exists>s'. loadState s = Loaded s' \<and> elapsedMs s' = elapsedMs s \<and> laps s' = laps s"
  using assms
  by (auto simp: loadState_def loadState_try_def getItem_def)

lemma loadState_fields:
  assumes "\<not> storageThrows s" and "storage s = Some (Parsable data)"
    and "get_prop data ''elapsedMs'' = Inr v" and "get_prop data ''laps'' = Inr l"
  shows "loadState s =
     (case (if truthy v then v else Some (JNum 0)) of
           Some (JNum x) \<Rightarrow>
             Loaded (s\<lparr>elapsedMs := x, laps := (case l of Some (JArr xs) \<Rightarrow> xs | _ \<Rightarrow> [])\<rparr>)
         | Some u \<Rightarrow> Untyped u (s\<lparr>laps := (case l of Some (JArr xs) \<Rightarrow> xs | _ \<Rightarrow> [])\<rparr>)
         | None \<Rightarrow>
             Loaded (s\<lparr>elapsedMs := 0, laps := (case l of Some (JArr xs) \<Rightarrow> xs | _ \<Rightarrow> [])\<rparr>))"
  using assms
  by (simp add: loadState_def loadState_try_def getItem_def Let_def)

lemma loadState_caught:
  "loadState_try s = Inl e \<Longrightarrow>
     loadState s = Loaded (s\<lparr>console := console s @ [''Failed to parse stored state'']\<rparr>)"
  by (simp add: loadState_def)


lemma tampered_env:
  "\<not> storageThrows tampered"
  "storage tampered =
     Some (Parsable (JObj [(''elapsedMs'', JNum 5000), (''laps'', JStr ''oops'')]))"
  by (simp_all add: tampered_def blank_page_def)

text \<open>
  Claim C4, as the script has it. On a page that has just been loaded, \<open>loadState\<close>
  leaves the defaults (\<open>elapsedMs\<close> 0, no laps) when the storage raises, the item is
  absent, empty or not JSON, or the item is \<open>null\<close>. For any other stored value the
  two fields fall back one by one: \<open>laps\<close> is the stored array, or empty when the
  stored \<open>laps\<close> is not an array; \<open>elapsedMs\<close> is the stored number when it is a
  number, and 0 when the stored \<open>elapsedMs\<close> is missing or falsy. \<open>intervalId\<close>
  stays \<open>null\<close>, and every exception of the \<open>try\<close> is caught.
\<close>

theorem loadState_fallback:
  "(storageThrows env \<or> storage env = None \<or> storage env = Some (Unparsable txt) \<or>
    storage env = Some (Parsable JNull)
      \<longrightarrow> default_loaded (loadState (fresh env))) \<and>
   (\<not> storageThrows env \<and> storage env = Some (Parsable data) \<and>
    get_prop data ''elapsedMs'' = Inr v \<and> get_prop data ''laps'' = Inr l
      \<longrightarrow> laps (the_state (loadState (fresh env))) = (case l of Some (JArr xs) \<Rightarrow> xs | _ \<Rightarrow> []) \<and>
          (\<forall>x. v = Some (JNum x) \<longrightarrow>
             (\<exists>s'. loadState (fresh env) = Loaded s' \<and> elapsedMs s' = x)) \<and>
          (\<not> truthy v \<longrightarrow> (\<exists>s'. loadState (fresh env) = Loaded s' \<and> elapsedMs s' = 0))) \<and>
   intervalId (the_state (loadState (fresh env))) = None \<and>
   (\<forall>e. loadState_try (fresh env) = Inl e \<longrightarrow> (\<exists>s'. loadState (fresh env) = Loaded s'))"
proof (intro conjI impI)
  assume "storageThrows env \<or> storage env = None \<or> storage env = Some (Unparsable txt) \<or>
    storage env = Some (Parsable JNull)"
  then have "storageThrows (fresh env) \<or> storage (fresh env) = None \<or>
      storage (fresh env) = Some (Unparsable txt) \<or> storage (fresh env) = Some (Parsable JNull)"
    by simp
  from loadState_unchanged [OF this] show "default_loaded (loadState (fresh env))"
    by auto
next
  assume a: "\<not> storageThrows env \<and> storage env = Some (Parsable data) \<and>
    get_prop data ''elapsedMs'' = Inr v \<and> get_prop data ''laps'' = Inr l"
  then have a1: "\<not> storageThrows (fresh env)" and a2: "storage (fresh env) = Some (Parsable data)"
    and a3: "get_prop data ''elapsedMs'' = Inr v" and a4: "get_prop data ''laps'' = Inr l"
    by (simp, simp, blast, blast)
  have eq: "loadState (fresh env) =
     (case (if truthy v then v else Some (JNum 0)) of
           Some (JNum x) \<Rightarrow>
             Loaded ((fresh env)\<lparr>elapsedMs := x, laps := (case l of Some (JArr xs) \<Rightarrow> xs | _ \<Rightarrow> [])\<rparr>)
         | Some u \<Rightarrow> Untyped u ((fresh env)\<lparr>laps := (case l of Some (JArr xs) \<Rightarrow> xs | _ \<Rightarrow> [])\<rparr>)
         | None \<Rightarrow>
             Loaded ((fresh env)\<lparr>elapsedMs := 0, laps := (case l of Some (JArr xs) \<Rightarrow> xs | _ \<Rightarrow> [])\<rparr>))"
    using a1 a2 a3 a4 by (rule loadState_fields)
  show "laps (the_state (loadState (fresh env))) = (case l of Some (JArr xs) \<Rightarrow> xs | _ \<Rightarrow> [])"
    by (subst eq) (simp split: option.splits json.splits)
  show "\<forall>x. v = Some (JNum x) \<longrightarrow> (\<exists>s'. loadState (fresh env) = Loaded s' \<and> elapsedMs s' = x)"
    by (subst eq) auto
  show "\<not> truthy v \<Longrightarrow> \<exists>s'. loadState (fresh env) = Loaded s' \<and> elapsedMs s' = 0"
    by (subst eq) simp
next
  show "intervalId (the_state (loadState (fresh env))) = None"
    by (simp add: loadState_core)
next
  show "\<forall>e. loadState_try (fresh env) = Inl e \<longrightarrow> (\<exists>s'. loadState (fresh env) = Loaded s')"
    by (simp add: loadState_caught)
qed

lemma loadState_tampered:
  "loadState (fresh tampered) = Loaded ((fresh tampered)\<lparr>elapsedMs := 5000, laps := []\<rparr>)"
proof -
  have a: "\<not> storageThrows (fresh tampered)"
    "storage (fresh tampered) =
       Some (Parsable (JObj [(''elapsedMs'', JNum 5000), (''laps'', JStr ''oops'')]))"
    by (simp_all add: tampered_env)
  have g: "get_prop (JObj [(''elapsedMs'', JNum 5000), (''laps'', JStr ''oops'')]) ''elapsedMs''
      = Inr (Some (JNum 5000))"
    "get_prop (JObj [(''elapsedMs'', JNum 5000), (''laps'', JStr ''oops'')]) ''laps''
      = Inr (Some (JStr ''oops''))"
    by simp_all
  from loadState_fields [OF a g] show ?thesis by simp
qed

theorem loadState_fallback_witness:
  "storage blank_page = None \<and> default_loaded (loadState (fresh blank_page)) \<and>
   \<not> storageThrows tampered \<and>
   storage tampered =
     Some (Parsable (JObj [(''elapsedMs'', JNum 5000), (''laps'', JStr ''oops'')])) \<and>
   laps (the_state (loadState (fresh tampered))) = [] \<and>
   (\<exists>s'. loadState (fresh tampered) = Loaded s' \<and> elapsedMs s' = 5000)"
proof -
  have b: "storage blank_page = None" by (simp add: blank_page_def)
  have g: "get_prop (JObj [(''elapsedMs'', JNum 5000), (''laps'', JStr ''oops'')]) ''elapsedMs''
      = Inr (Some (JNum 5000))"
    "get_prop (JObj [(''elapsedMs'', JNum 5000), (''laps'', JStr ''oops'')]) ''laps''
      = Inr (Some (JStr ''oops''))"
    by simp_all
  from loadState_fallback [where env = blank_page] b
  have 1: "default_loaded (loadState (fresh blank_page))" by blast
  from loadState_fallback [where env = tampered
      and data = "JObj [(''elapsedMs'', JNum 5000), (''laps'', JStr ''oops'')]"
      and v = "Some (JNum 5000)" and l = "Some (JStr ''oops'')"] tampered_env g
  have 2: "laps (the_state (loadState (fresh tampered))) = [] \<and>
      (\<exists>s'. loadState (fresh tampered) = Loaded s' \<and> elapsedMs s' = 5000)"
    by simp
  from b 1 2 tampered_env show ?thesis by blast
qed

text \<open>
  The claim as the specification states it fails on the stored object
  \<open>{"elapsedMs": 5000, "laps": "oops"}\<close>: \<open>laps\<close> is not an array, and the state
  loaded is not the default one, \<open>elapsedMs\<close> is 5000.
\<close>

theorem load_default_counterexample:
  "storage tampered =
     Some (Parsable (JObj [(''elapsedMs'', JNum 5000), (''laps'', JStr ''oops'')])) \<and>
   non_array_laps (JObj [(''elapsedMs'', JNum 5000), (''laps'', JStr ''oops'')]) \<and>
   elapsedMs (the_state (loadState (fresh tampered))) = 5000 \<and>
   \<not> default_loaded (loadState (fresh tampered))"
  by (simp add: tampered_env non_array_laps_def loadState_tampered)

text \<open>
  Claim C5. Let \<open>saveState\<close> write the snapshot of any state \<open>s\<close> to a storage that
  takes it, and load a page on that storage. \<open>loadState\<close> gives \<open>elapsedMs\<close> and
  \<open>laps\<close> of \<open>s\<close>, and the page is stopped: no interval handle, anchor 0, whether
  \<open>s\<close> was running or not.
\<close>

theorem save_load_roundtrip:
  assumes "\<not> storageThrows s"
    and "storage env = storage (saveState w s)"
    and "\<not> storageThrows env"
  shows "\<exists>s'. loadState (fresh env) = Loaded s' \<and> elapsedMs s' = elapsedMs s \<and>
           laps s' = laps s \<and> \<not> running s' \<and> intervalId s' = None \<and> startTimestamp s' = 0"
proof -
  from assms have st: "storage (fresh env) = Some (Parsable (payload w s))"
    by (simp add: saveState_eq)
  have g: "get_prop (payload w s) ''elapsedMs'' = Inr (Some (JNum (elapsedMs s)))"
    "get_prop (payload w s) ''laps'' = Inr (Some (JArr (laps s)))"
    by (simp_all add: payload_def)
  from assms(3) have "\<not> storageThrows (fresh env)" by simp
  from loadState_fields [OF this st g]
  have "loadState (fresh env) = Loaded ((fresh env)\<lparr>elapsedMs := elapsedMs s, laps := laps s\<rparr>)"
    by (cases "elapsedMs s = 0") simp_all
  then show ?thesis
    by (simp add: running_def)
qed

lemma lapped_state:
  "\<not> storageThrows lapped"
  "elapsedMs lapped = 0"
  "running lapped"
  "laps lapped = [JObj [(''timeMs'', JNum 1500), (''label'', JStr ''00:00:01'')]]"
  "storage lapped =
     Some (Parsable (JObj [(''elapsedMs'', JNum 0),
       (''laps'', JArr [JObj [(''timeMs'', JNum 1500), (''label'', JStr ''00:00:01'')]]),
       (''savedAt'', JNum 7)]))"
  by (simp_all add: lapped_def new_lap_started lapBtn_click_saves payload_def)

theorem save_load_roundtrip_witness:
  "\<not> storageThrows lapped \<and>
   storage (blank_page\<lparr>storage := storage (saveState 8 lapped)\<rparr>) =
     storage (saveState 8 lapped) \<and>
   running lapped \<and>
   (\<exists>s'. loadState (fresh (blank_page\<lparr>storage := storage (saveState 8 lapped)\<rparr>)) = Loaded s' \<and>
      elapsedMs s' = 0 \<and>
      laps s' = [JObj [(''timeMs'', JNum 1500), (''label'', JStr ''00:00:01'')]] \<and>
      \<not> running s')"
proof -
  let ?env = "blank_page\<lparr>storage := storage (saveState 8 lapped)\<rparr>"
  note a = lapped_state(1)
  have b: "storage ?env = storage (saveState 8 lapped)" by simp
  have c: "\<not> storageThrows ?env" by simp
  from save_load_roundtrip [OF a b c] lapped_state(2,4)
  have "\<exists>s'. loadState (fresh ?env) = Loaded s' \<and> elapsedMs s' = 0 \<and>
      laps s' = [JObj [(''timeMs'', JNum 1500), (''label'', JStr ''00:00:01'')]] \<and>
      \<not> running s'"
    by auto
  with a b lapped_state(3) show ?thesis by blast
qed

subsection \<open>The lap button\<close>







lemma ready_fields [simp]:
  "\<not> running ready" "laps ready = []" "elapsedMs ready = 0" "lapBtn_disabled ready"
  by (simp_all add: ready_def blank_page_def running_def)




subsection \<open>The stored snapshot\<close>

lemma lap_entry_new_lap: "lap_entry (new_lap s now)"
  by (simp add: new_lap_def Let_def)

lemma dispatch_lap_entries:
  assumes "list_all lap_entry (laps s)"
  shows "list_all lap_entry (laps (dispatch e s))"
proof (cases e)
  case (StartClick now now')
  with assms show ?thesis
    by (cases "running s") (simp_all add: startBtn_click_running startBtn_click_stopped)
next
  case (StopClick now now' w)
  with assms show ?thesis
    by (cases "running s") (simp_all add: stopBtn_click_running stopBtn_click_stopped)
next
  case (ResetClick now' w)
  with assms show ?thesis
    by (simp add: resetBtn_click_fields)
next
  case (LapClick now w)
  with assms show ?thesis
    by (simp add: lap_entry_new_lap)
next
  case (Tick now)
  with assms show ?thesis by (simp add: tick_def)
next
  case (VisibilityChange visible now)
  with assms show ?thesis by (simp add: visibilitychange_def)
qed

text \<open>
  Claim C3, as the script has it. When the storage takes the write, \<open>saveState\<close>
  stores an object with the keys \<open>elapsedMs\<close> (the accumulated milliseconds),
  \<open>laps\<close> and \<open>savedAt\<close> (the reading of \<open>Date.now()\<close>). The laps are newest
  first, and each lap the lap handler makes is an object with the fields \<open>timeMs\<close>
  and \<open>label\<close>: when all laps of a state are of that form, so are the laps of the
  snapshot and the laps after any event.
\<close>

theorem snapshot_written:
  assumes "list_all lap_entry (laps s)" and "\<not> storageThrows s"
  shows "storage (saveState w s) = Some (Parsable (payload w s)) \<and>
         payload w s =
           JObj [(''elapsedMs'', JNum (elapsedMs s)), (''laps'', JArr (laps s)),
                 (''savedAt'', JNum w)] \<and>
         snapshot_layout (payload w s) \<and>
         laps (lapBtn_click now w s) =
           JObj [(''timeMs'', JNum (currentElapsedMs s now)),
                 (''label'', JStr (formatTime \<lfloor>js_div (currentElapsedMs s now) 1000\<rfloor>))] #
           laps s \<and>
         list_all lap_entry (laps (dispatch e s))"
proof -
  from assms(1) have "list_all lap_entry (laps (dispatch e s))"
    by (rule dispatch_lap_entries)
  then show ?thesis
    using assms by (simp add: saveState_eq payload_def new_lap_def Let_def)
qed

theorem snapshot_written_witness:
  "list_all lap_entry (laps lapped) \<and> \<not> storageThrows lapped \<and>
   storage (saveState 8 lapped) =
     Some (Parsable (JObj [(''elapsedMs'', JNum 0),
       (''laps'', JArr [JObj [(''timeMs'', JNum 1500), (''label'', JStr ''00:00:01'')]]),
       (''savedAt'', JNum 8)])) \<and>
   snapshot_layout (JObj [(''elapsedMs'', JNum 0),
       (''laps'', JArr [JObj [(''timeMs'', JNum 1500), (''label'', JStr ''00:00:01'')]]),
       (''savedAt'', JNum 8)])"
proof -
  have a: "list_all lap_entry (laps lapped)" by (simp add: lapped_state)
  note b = lapped_state(1)
  from snapshot_written [OF a b, of 8] a b show ?thesis
    by (simp add: lapped_state)
qed

text \<open>
  The claim as the specification states it fails on the snapshot that a click on Lap
  writes: it has no key \<open>accumulatedMs\<close>, and its lap has no field \<open>elapsedMs\<close>.
\<close>

theorem snapshot_keys_counterexample:
  "storage lapped =
     Some (Parsable (JObj [(''elapsedMs'', JNum 0),
       (''laps'', JArr [JObj [(''timeMs'', JNum 1500), (''label'', JStr ''00:00:01'')]]),
       (''savedAt'', JNum 7)])) \<and>
   \<not> spec_snapshot (JObj [(''elapsedMs'', JNum 0),
       (''laps'', JArr [JObj [(''timeMs'', JNum 1500), (''label'', JStr ''00:00:01'')]]),
       (''savedAt'', JNum 7)]) \<and>
   \<not> has_field (JObj [(''elapsedMs'', JNum 0),
       (''laps'', JArr [JObj [(''timeMs'', JNum 1500), (''label'', JStr ''00:00:01'')]]),
       (''savedAt'', JNum 7)]) ''accumulatedMs'' \<and>
   \<not> spec_lap (JObj [(''timeMs'', JNum 1500), (''label'', JStr ''00:00:01'')])"
  by (simp add: lapped_state spec_lap_def)

end
